theory Spec2Isabelle
  imports Complex_Main
begin

section \<open>Text helpers of the Python runtime\<close>

text \<open>
  Python strings are modelled as \<open>string\<close>, a character standing for the code point of
  its number: the strings of the model are those over U+0000 to U+00FF. The helpers below
  follow the built-ins that \<^verbatim>\<open>engine.py\<close> calls: \<^verbatim>\<open>str.strip\<close>, \<^verbatim>\<open>str.rstrip\<close>,
  \<^verbatim>\<open>str.lower\<close>, the substring test \<^verbatim>\<open>in\<close>, \<^verbatim>\<open>str.join\<close>, \<^verbatim>\<open>str.split\<close>,
  \<^verbatim>\<open>str(int)\<close> and \<^verbatim>\<open>int(str)\<close>. \<open>is_space\<close> is the white space of \<^verbatim>\<open>str.strip\<close>
  in that range.
\<close>

definition is_space :: "char \<Rightarrow> bool" where
  "is_space c = (c \<in> set [CHR '' '', CHR 0x09, CHR 0x0A, CHR 0x0B, CHR 0x0C, CHR 0x0D,
                            CHR 0x1C, CHR 0x1D, CHR 0x1E, CHR 0x1F, CHR 0x85, CHR 0xA0])"

definition lstrip :: "string \<Rightarrow> string" where
  "lstrip s = dropWhile is_space s"

definition rstrip :: "string \<Rightarrow> string" where
  "rstrip s = rev (dropWhile is_space (rev s))"

definition strip :: "string \<Rightarrow> string" where
  "strip s = rstrip (lstrip s)"

definition lower_char :: "char \<Rightarrow> char" where
  "lower_char c =
     (case map_of
        (zip (''ABCDEFGHIJKLMNOPQRSTUVWXYZ''
              @ [CHR 0xC0, CHR 0xC1, CHR 0xC2, CHR 0xC3, CHR 0xC4, CHR 0xC5, CHR 0xC6, CHR 0xC7,
                 CHR 0xC8, CHR 0xC9, CHR 0xCA, CHR 0xCB, CHR 0xCC, CHR 0xCD, CHR 0xCE, CHR 0xCF,
                 CHR 0xD0, CHR 0xD1, CHR 0xD2, CHR 0xD3, CHR 0xD4, CHR 0xD5, CHR 0xD6,
                 CHR 0xD8, CHR 0xD9, CHR 0xDA, CHR 0xDB, CHR 0xDC, CHR 0xDD, CHR 0xDE])
             (''abcdefghijklmnopqrstuvwxyz''
              @ [CHR 0xE0, CHR 0xE1, CHR 0xE2, CHR 0xE3, CHR 0xE4, CHR 0xE5, CHR 0xE6, CHR 0xE7,
                 CHR 0xE8, CHR 0xE9, CHR 0xEA, CHR 0xEB, CHR 0xEC, CHR 0xED, CHR 0xEE, CHR 0xEF,
                 CHR 0xF0, CHR 0xF1, CHR 0xF2, CHR 0xF3, CHR 0xF4, CHR 0xF5, CHR 0xF6,
                 CHR 0xF8, CHR 0xF9, CHR 0xFA, CHR 0xFB, CHR 0xFC, CHR 0xFD, CHR 0xFE])) c of
        None \<Rightarrow> c
      | Some l \<Rightarrow> l)"

definition lower :: "string \<Rightarrow> string" where
  "lower s = map lower_char s"

fun contains :: "string \<Rightarrow> string \<Rightarrow> bool" where
  "contains needle [] = (needle = [])"
| "contains needle (c # cs) = (take (length needle) (c # cs) = needle \<or> contains needle cs)"

fun join :: "string \<Rightarrow> string list \<Rightarrow> string" where
  "join sep [] = []"
| "join sep [x] = x"
| "join sep (x # y # ys) = x @ sep @ join sep (y # ys)"

fun split_on :: "char \<Rightarrow> string \<Rightarrow> string list" where
  "split_on sep [] = [[]]"
| "split_on sep (c # cs) =
     (if c = sep then [] # split_on sep cs
      else (case split_on sep cs of [] \<Rightarrow> [[c]] | w # ws \<Rightarrow> (c # w) # ws))"

definition digit_char :: "nat \<Rightarrow> char" where
  "digit_char d = ''0123456789'' ! d"

fun str_nat :: "nat \<Rightarrow> string" where
  "str_nat n = (if n < 10 then [digit_char n] else str_nat (n div 10) @ [digit_char (n mod 10)])"

definition is_digit :: "char \<Rightarrow> bool" where
  "is_digit c = (let n = (of_char c :: nat) in 48 \<le> n \<and> n \<le> 57)"

definition digit_val :: "char \<Rightarrow> nat" where
  "digit_val c = of_char c - 48"

text \<open>
  \<^verbatim>\<open>int(value)\<close>: surrounding white space is dropped, one sign is allowed, then decimal
  digits, where single underscores may stand between digits. The white space of
  \<^verbatim>\<open>int\<close> is not that of \<^verbatim>\<open>str.strip\<close>: the separators U+001C to U+001F are not
  part of it. A text with more than 4300 digits is refused (the interpreter's default
  limit for the conversion). Anything refused is the \<^verbatim>\<open>ValueError\<close>, here \<open>None\<close>.
\<close>

definition is_int_space :: "char \<Rightarrow> bool" where
  "is_int_space c = (c \<in> set [CHR '' '', CHR 0x09, CHR 0x0A, CHR 0x0B, CHR 0x0C, CHR 0x0D,
                                CHR 0x85, CHR 0xA0])"

definition strip_int :: "string \<Rightarrow> string" where
  "strip_int s = rev (dropWhile is_int_space (rev (dropWhile is_int_space s)))"

fun parse_digits_from :: "nat \<Rightarrow> string \<Rightarrow> nat option" where
  "parse_digits_from acc [] = Some acc"
| "parse_digits_from acc (c # cs) =
     (if is_digit c then parse_digits_from (acc * 10 + digit_val c) cs
      else if c = CHR ''_'' then
        (case cs of
           [] \<Rightarrow> None
         | d # ds \<Rightarrow> if is_digit d then parse_digits_from (acc * 10 + digit_val d) ds else None)
      else None)"

definition parse_digits :: "string \<Rightarrow> nat option" where
  "parse_digits s =
     (case s of
        [] \<Rightarrow> None
      | c # cs \<Rightarrow> if is_digit c then parse_digits_from (digit_val c) cs else None)"

definition py_int :: "string \<Rightarrow> int option" where
  "py_int s =
     (case strip_int s of
        [] \<Rightarrow> None
      | c # cs \<Rightarrow>
          if 4300 < length (filter is_digit (c # cs)) then None
          else if c = CHR ''-'' then map_option (\<lambda>n. - int n) (parse_digits cs)
          else if c = CHR ''+'' then map_option int (parse_digits cs)
          else map_option int (parse_digits (c # cs)))"

section \<open>Exceptions\<close>

text \<open>
  The exceptions that the modelled code can meet, by class. \<open>OtherError\<close> stands for any
  class that none of the handlers in \<^verbatim>\<open>engine.py\<close> names.
\<close>

datatype exn =
  OSError | TimeoutExpired | ValueError | OverflowError | ZeroDivisionError | OtherError

section \<open>Binary64 arithmetic\<close>

text \<open>
  A Python \<^verbatim>\<open>float\<close> is an IEEE 754 binary64 value: a finite number, one of the two
  infinities, or not-a-number. Finite values are held as rationals; the two zeros are
  not told apart, since no operation used here distinguishes them. Every operation
  computes the exact result and rounds it to the nearest representable value, ties to
  the even significand: \<open>binade a\<close> is the exponent \<open>e\<close> with \<open>2^e \<le> a < 2^(e+1)\<close>,
  \<open>ulp a\<close> the spacing of the representable values around \<open>a\<close> (53 significant bits,
  least exponent \<open>-1022\<close>, so \<open>2^-1074\<close> in the subnormal range), and a result that
  rounds to \<open>2^1024\<close> or more is an infinity. The type has room for rationals that are
  not representable; the operations never return one, and a statement about every
  \<open>Finite r\<close> holds for the representable ones among them.
\<close>

datatype float64 = Finite rat | PInf | NInf | NaN

fun log2n :: "nat \<Rightarrow> nat" where
  "log2n n = (if n < 2 then 0 else Suc (log2n (n div 2)))"

definition binade :: "rat \<Rightarrow> int" where
  "binade a =
     (if 1 \<le> a then int (log2n (nat \<lfloor>a\<rfloor>))
      else - int (let n = nat (- \<lfloor>- (1 / a)\<rfloor>) in if n \<le> 1 then 0 else Suc (log2n (n - 1))))"

definition round_half_even :: "rat \<Rightarrow> int" where
  "round_half_even t =
     (let f = \<lfloor>t\<rfloor>; d = t - of_int f in
      if d < 1 / 2 then f else if 1 / 2 < d then f + 1 else if even f then f else f + 1)"

definition ulp :: "rat \<Rightarrow> rat" where
  "ulp a = 2 powi (max (binade a) (- 1022) - 52)"

definition round_pos :: "rat \<Rightarrow> rat" where
  "round_pos a = of_int (round_half_even (a / ulp a)) * ulp a"

definition round64 :: "rat \<Rightarrow> float64" where
  "round64 x =
     (if x = 0 then Finite 0
      else if 0 < x then (if 2 powi 1024 \<le> round_pos x then PInf else Finite (round_pos x))
      else (if 2 powi 1024 \<le> round_pos (- x) then NInf else Finite (- round_pos (- x))))"

text \<open>
  \<open>fle\<close> is \<^verbatim>\<open><=\<close> (false as soon as one side is not-a-number), \<open>fmul\<close> is \<^verbatim>\<open>*\<close>
  and \<open>fdiv\<close> is \<^verbatim>\<open>/\<close>, which raises for a zero divisor. \<open>float_of_int\<close> is the
  conversion of an \<^verbatim>\<open>int\<close> operand, which raises when the integer is beyond the finite
  range, and \<open>math_floor\<close> is \<^verbatim>\<open>math.floor\<close>, which raises for an infinity and for
  not-a-number.
\<close>

definition fle :: "float64 \<Rightarrow> float64 \<Rightarrow> bool" where
  "fle a b =
     (case a of
        NaN \<Rightarrow> False
      | NInf \<Rightarrow> b \<noteq> NaN
      | PInf \<Rightarrow> b = PInf
      | Finite x \<Rightarrow>
          (case b of NaN \<Rightarrow> False | NInf \<Rightarrow> False | PInf \<Rightarrow> True | Finite y \<Rightarrow> x \<le> y))"

definition fmul :: "float64 \<Rightarrow> float64 \<Rightarrow> float64" where
  "fmul a b =
     (case a of
        NaN \<Rightarrow> NaN
      | Finite x \<Rightarrow>
          (case b of
             NaN \<Rightarrow> NaN
           | Finite y \<Rightarrow> round64 (x * y)
           | PInf \<Rightarrow> if x = 0 then NaN else if 0 < x then PInf else NInf
           | NInf \<Rightarrow> if x = 0 then NaN else if 0 < x then NInf else PInf)
      | PInf \<Rightarrow>
          (case b of
             NaN \<Rightarrow> NaN
           | Finite y \<Rightarrow> if y = 0 then NaN else if 0 < y then PInf else NInf
           | PInf \<Rightarrow> PInf
           | NInf \<Rightarrow> NInf)
      | NInf \<Rightarrow>
          (case b of
             NaN \<Rightarrow> NaN
           | Finite y \<Rightarrow> if y = 0 then NaN else if 0 < y then NInf else PInf
           | PInf \<Rightarrow> NInf
           | NInf \<Rightarrow> PInf))"

definition fdiv :: "float64 \<Rightarrow> float64 \<Rightarrow> exn + float64" where
  "fdiv a b =
     (case b of
        Finite y \<Rightarrow>
          if y = 0 then Inl ZeroDivisionError
          else (case a of
                  NaN \<Rightarrow> Inr NaN
                | Finite x \<Rightarrow> Inr (round64 (x / y))
                | PInf \<Rightarrow> Inr (if 0 < y then PInf else NInf)
                | NInf \<Rightarrow> Inr (if 0 < y then NInf else PInf))
      | NaN \<Rightarrow> Inr NaN
      | PInf \<Rightarrow> (case a of Finite x \<Rightarrow> Inr (Finite 0) | _ \<Rightarrow> Inr NaN)
      | NInf \<Rightarrow> (case a of Finite x \<Rightarrow> Inr (Finite 0) | _ \<Rightarrow> Inr NaN))"

definition float_of_int :: "int \<Rightarrow> exn + float64" where
  "float_of_int i =
     (case round64 (of_int i) of Finite x \<Rightarrow> Inr (Finite x) | _ \<Rightarrow> Inl OverflowError)"

definition math_floor :: "float64 \<Rightarrow> exn + int" where
  "math_floor a =
     (case a of Finite x \<Rightarrow> Inr \<lfloor>x\<rfloor> | NaN \<Rightarrow> Inl ValueError | _ \<Rightarrow> Inl OverflowError)"

section \<open>ffmpeg.py\<close>

text \<open>
  \<^verbatim>\<open>MediaInfo\<close> as the dataclass has it. \<^verbatim>\<open>probe_media\<close> fills \<open>duration\<close> with
  \<^verbatim>\<open>float(...)\<close> of a text, which can be any binary64 value, infinities and
  not-a-number included.
\<close>

record MediaInfo =
  duration :: "float64 option"
  width :: "int option"
  height :: "int option"
  video_codec :: "string option"
  audio_codec :: "string option"
  fps :: "float64 option"
  rotation :: "int option"

definition MediaInfo_default :: MediaInfo where
  "MediaInfo_default =
     \<lparr>duration = None, width = None, height = None, video_codec = None,
      audio_codec = None, fps = None, rotation = None\<rparr>"

text \<open>
  \<^verbatim>\<open>progress_from_out_time\<close>: \<open>Inr None\<close> and \<open>Inr (Some n)\<close> are the two kinds of
  return value, \<open>Inl e\<close> is the exception that leaves the function.
\<close>

definition progress_from_out_time :: "int \<Rightarrow> float64 option \<Rightarrow> exn + int option" where
  "progress_from_out_time out_time_us dur =
     (case dur of
        None \<Rightarrow> Inr None
      | Some d \<Rightarrow>
          if fle d (Finite 0) then Inr None
          else
            let total_us = fmul d (Finite 1000000) in
            if fle total_us (Finite 0) then Inr None
            else
              (case float_of_int out_time_us of
                 Inl e \<Rightarrow> Inl e
               | Inr x \<Rightarrow>
                   (case fdiv x total_us of
                      Inl e \<Rightarrow> Inl e
                    | Inr q \<Rightarrow>
                        (case math_floor (fmul q (Finite 100)) of
                           Inl e \<Rightarrow> Inl e
                         | Inr n \<Rightarrow> Inr (Some (max 0 (min 100 n)))))))"

section \<open>engine.py: data\<close>

datatype Status =
  STATUS_QUEUED | STATUS_RUNNING | STATUS_COMPLETED | STATUS_FAILED | STATUS_SKIPPED
  | STATUS_CANCELED

text \<open>
  \<^verbatim>\<open>WorkItem\<close> without \<^verbatim>\<open>start_time\<close> and \<^verbatim>\<open>end_time\<close>: they hold wall-clock
  readings that no decision of the engine depends on.
\<close>

record WorkItem =
  item_id :: int
  input_path :: string
  output_path :: string
  status :: Status
  progress :: "int option"
  message :: string
  error :: string
  input_bytes :: "nat option"
  output_bytes :: "nat option"
  media :: "MediaInfo option"
  output_media :: "MediaInfo option"
  thumbnail_path :: "string option"

subsection \<open>Process handles\<close>

text \<open>
  A \<^verbatim>\<open>subprocess.Popen\<close> handle is modelled by what its three control calls do when the
  engine makes them: \<open>None\<close> when the call returns, \<open>Some e\<close> when it raises \<open>e\<close>.
  For \<^verbatim>\<open>wait(timeout=3)\<close>, returning means that the process exited within the timeout.
\<close>

record popen =
  on_terminate :: "exn option"
  on_wait :: "exn option"
  on_kill :: "exn option"

datatype call = Terminate | Wait nat | Kill

text \<open>
  \<^verbatim>\<open>_terminate_process\<close> returns the exception that leaves it, if any, and the calls it
  made on the handle, in order.
\<close>

definition terminate_process :: "popen \<Rightarrow> exn option \<times> call list" where
  "terminate_process p =
     (case on_terminate p of
        Some e \<Rightarrow> if e = OSError then (None, [Terminate]) else (Some e, [Terminate])
      | None \<Rightarrow>
          (case on_wait p of
             None \<Rightarrow> (None, [Terminate, Wait 3])
           | Some e \<Rightarrow>
               if e = TimeoutExpired then
                 (case on_kill p of
                    None \<Rightarrow> (None, [Terminate, Wait 3, Kill])
                  | Some e' \<Rightarrow>
                      if e' = OSError then (None, [Terminate, Wait 3, Kill])
                      else (Some e', [Terminate, Wait 3, Kill]))
               else (Some e, [Terminate, Wait 3])))"

subsection \<open>Effects of a worker\<close>

text \<open>
  What a worker does to the outside is recorded as a list of effects, oldest first. An
  \<open>EmitItem\<close> holds the item as the callback sees it at that moment.
\<close>

datatype effect =
  EmitItem WorkItem
  | LogItem WorkItem
  | Mkdir string
  | ProbeMedia string
  | Popen string
  | Register int
  | Unregister int
  | ProcCall call
  | ProcWait
  | ClosePipes
  | Unlink string
  | Replace string string

record run =
  item :: WorkItem
  effects :: "effect list"
  raised :: "exn option"

definition emit_item :: "bool \<Rightarrow> run \<Rightarrow> run" where
  "emit_item on_item_update r =
     (if on_item_update then r\<lparr>effects := effects r @ [EmitItem (item r)]\<rparr> else r)"

definition log_item :: "run \<Rightarrow> run" where
  "log_item r = r\<lparr>effects := effects r @ [LogItem (item r)]\<rparr>"

definition perform :: "effect list \<Rightarrow> run \<Rightarrow> run" where
  "perform es r = r\<lparr>effects := effects r @ es\<rparr>"

fun emitted_items :: "effect list \<Rightarrow> WorkItem list" where
  "emitted_items [] = []"
| "emitted_items (EmitItem i # es) = i # emitted_items es"
| "emitted_items (e # es) = emitted_items es"

definition emitted_progress :: "effect list \<Rightarrow> int option list" where
  "emitted_progress es = map progress (emitted_items es)"

subsection \<open>The progress loop of \<^verbatim>\<open>_process_item\<close>\<close>

text \<open>
  One line of the process's standard output, as the loop body reads it: stripped, split
  at the first \<open>=\<close>, and dispatched on the key. \<open>Skip\<close> stands for the two
  \<^verbatim>\<open>continue\<close> statements and for a line that neither branch takes.
\<close>

datatype progress_line = OutTime int | ProgressEnd | Skip

definition parse_line :: "string \<Rightarrow> progress_line" where
  "parse_line raw =
     (let line = strip raw in
      if line = [] \<or> CHR ''='' \<notin> set line then Skip
      else
        let key = takeWhile (\<lambda>c. c \<noteq> CHR ''='') line;
            val = tl (dropWhile (\<lambda>c. c \<noteq> CHR ''='') line)
        in
          if key = ''out_time_ms'' then
            (case py_int val of None \<Rightarrow> Skip | Some out_us \<Rightarrow> OutTime out_us)
          else if key = ''progress'' \<and> val = ''end'' then ProgressEnd
          else Skip)"

text \<open>
  The body of the loop for one line. An exception of \<open>progress_from_out_time\<close> is not
  caught in the loop: it is recorded in \<open>raised\<close>.
\<close>

definition handle_line :: "bool \<Rightarrow> MediaInfo \<Rightarrow> string \<Rightarrow> run \<Rightarrow> run" where
  "handle_line on_item_update m raw r =
     (case parse_line raw of
        Skip \<Rightarrow> r
      | OutTime out_us \<Rightarrow>
          (case progress_from_out_time out_us (duration m) of
             Inl e \<Rightarrow> r\<lparr>raised := Some e\<rparr>
           | Inr p \<Rightarrow>
               if p \<noteq> None \<and> p \<noteq> progress (item r)
               then emit_item on_item_update (r\<lparr>item := (item r)\<lparr>progress := p\<rparr>\<rparr>)
               else r)
      | ProgressEnd \<Rightarrow>
          emit_item on_item_update (r\<lparr>item := (item r)\<lparr>progress := Some 100\<rparr>\<rparr>))"

text \<open>
  The loop over the lines. Each line comes with the cancellation flag as the worker finds
  it on reading that line. The loop ends with the lines, with the flag (by \<^verbatim>\<open>break\<close>,
  after \<^verbatim>\<open>_terminate_process\<close>), or with an exception. The result says also whether
  the loop saw the flag set.
\<close>

fun read_stdout :: "bool \<Rightarrow> popen \<Rightarrow> MediaInfo \<Rightarrow> (bool \<times> string) list \<Rightarrow> run \<Rightarrow> run \<times> bool" where
  "read_stdout on_item_update p m [] r = (r, False)"
| "read_stdout on_item_update p m ((cancel_set, raw) # rest) r =
     (if cancel_set then
        (let (e, calls) = terminate_process p in
         (r\<lparr>effects := effects r @ map ProcCall calls, raised := e\<rparr>, True))
      else if raised (handle_line on_item_update m raw r) \<noteq> None
      then (handle_line on_item_update m raw r, False)
      else read_stdout on_item_update p m rest (handle_line on_item_update m raw r))"

subsection \<open>Paths\<close>

text \<open>
  Paths are those of POSIX. A \<^verbatim>\<open>Path\<close> is the list of its parts as \<^verbatim>\<open>pathlib\<close>
  keeps them: the components in order, after the root (\<open>/\<close>, or \<open>//\<close> for exactly
  two leading slashes) when the path is absolute. The last component is the name.
  \<open>parse_path\<close> is \<^verbatim>\<open>Path(text)\<close>, which drops empty components and single dots,
  and \<open>str_path\<close> is \<^verbatim>\<open>str(path)\<close>. \<open>path_suffix\<close> and \<open>path_stem\<close> follow
  \<^verbatim>\<open>pathlib\<close>: the suffix starts at the last dot of the name, unless that dot is the
  first or the last character. \<open>has_name\<close> tells the paths with a name from the empty
  path and the bare roots, for which \<^verbatim>\<open>with_name\<close> and \<^verbatim>\<open>with_suffix\<close> raise
  \<^verbatim>\<open>ValueError\<close>.
\<close>

type_synonym path = "string list"

definition parse_path :: "string \<Rightarrow> path" where
  "parse_path s =
     (if take 2 s = ''//'' \<and> take 3 s \<noteq> ''///'' then [''//'']
      else if take 1 s = ''/'' then [''/'']
      else [])
     @ filter (\<lambda>x. x \<noteq> [] \<and> x \<noteq> ''.'') (split_on CHR ''/'' s)"

definition has_name :: "path \<Rightarrow> bool" where
  "has_name p = (p \<noteq> [] \<and> p \<noteq> [''/''] \<and> p \<noteq> [''//''])"

definition path_name :: "path \<Rightarrow> string" where
  "path_name p = (if p = [] then [] else last p)"

definition rfind_dot :: "string \<Rightarrow> nat option" where
  "rfind_dot name =
     (if CHR ''.'' \<in> set name
      then Some (length name - 1 - length (takeWhile (\<lambda>c. c \<noteq> CHR ''.'') (rev name)))
      else None)"

definition path_suffix :: "path \<Rightarrow> string" where
  "path_suffix p =
     (case rfind_dot (path_name p) of
        None \<Rightarrow> []
      | Some i \<Rightarrow> if 0 < i \<and> i + 1 < length (path_name p) then drop i (path_name p) else [])"

definition path_stem :: "path \<Rightarrow> string" where
  "path_stem p =
     (case rfind_dot (path_name p) of
        None \<Rightarrow> path_name p
      | Some i \<Rightarrow> if 0 < i \<and> i + 1 < length (path_name p) then take i (path_name p)
                   else path_name p)"

definition with_name :: "path \<Rightarrow> string \<Rightarrow> path" where
  "with_name p name = butlast p @ [name]"

definition str_path :: "path \<Rightarrow> string" where
  "str_path p =
     (case p of
        [] \<Rightarrow> ''.''
      | c # cs \<Rightarrow> if c = ''/'' \<or> c = ''//'' then c @ join ''/'' cs else join ''/'' (c # cs))"

subsection \<open>\<^verbatim>\<open>_suffix_path\<close>\<close>

definition suffix_candidate :: "path \<Rightarrow> nat \<Rightarrow> path" where
  "suffix_candidate p counter =
     with_name p (path_stem p @ ''_'' @ str_nat counter @ path_suffix p)"

text \<open>
  The \<^verbatim>\<open>while True\<close> loop of \<^verbatim>\<open>_suffix_path\<close>; \<open>fs_exists\<close> is
  \<^verbatim>\<open>Path.exists\<close> on the file system as it is during the scan. \<open>None\<close> is the loop
  that never returns.
\<close>

partial_function (option) suffix_path_loop :: "(path \<Rightarrow> bool) \<Rightarrow> path \<Rightarrow> nat \<Rightarrow> path option" where
  "suffix_path_loop fs_exists p counter =
     (if \<not> fs_exists (suffix_candidate p counter) then Some (suffix_candidate p counter)
      else suffix_path_loop fs_exists p (counter + 1))"

definition suffix_path :: "(path \<Rightarrow> bool) \<Rightarrow> path \<Rightarrow> path option" where
  "suffix_path fs_exists p = suffix_path_loop fs_exists p 1"

subsection \<open>\<^verbatim>\<open>_temp_output_path\<close>\<close>

text \<open>
  The worker meets the file system as a finite table: a path that is absent from it does
  not exist, a path entered with \<open>None\<close> exists, and for a path entered with \<open>Some e\<close>
  the call of \<^verbatim>\<open>Path.exists\<close> raises \<open>e\<close> (the method lets every \<^verbatim>\<open>OSError\<close> pass
  that is not one of the few it reads as absence, such as the one for a name that is too
  long).
\<close>

definition path_exists :: "(path \<times> exn option) list \<Rightarrow> path \<Rightarrow> exn + bool" where
  "path_exists fs q =
     (case map_of fs q of
        None \<Rightarrow> Inr False
      | Some None \<Rightarrow> Inr True
      | Some (Some e) \<Rightarrow> Inl e)"

definition temp_first :: "path \<Rightarrow> path" where
  "temp_first p =
     (if path_suffix p \<noteq> [] then with_name p (path_stem p @ ''.partial'' @ path_suffix p)
      else with_name p (path_name p @ ''.partial''))"

definition temp_candidate :: "path \<Rightarrow> nat \<Rightarrow> path" where
  "temp_candidate p counter =
     (if path_suffix p \<noteq> []
      then with_name p (path_stem p @ ''.partial'' @ str_nat counter @ path_suffix p)
      else with_name p (path_name p @ ''.partial'' @ str_nat counter))"

text \<open>
  The \<^verbatim>\<open>while True\<close> loop of \<^verbatim>\<open>_temp_output_path\<close> ends on a finite table, because
  the candidates of different counters are different paths: \<^verbatim>\<open>str\<close> gives different
  numerals for different numbers.
\<close>

declare str_nat.simps [simp del]

lemma digit_char_inj:
  assumes "a < 10" and "b < 10" and "digit_char a = digit_char b"
  shows "a = b"
proof -
  have d: "distinct ''0123456789''" by simp
  have l: "length ''0123456789'' = 10" by simp
  from assms show ?thesis
    unfolding digit_char_def using nth_eq_iff_index_eq [OF d, of a b] l by simp
qed

lemma str_nat_small: "n < 10 \<Longrightarrow> str_nat n = [digit_char n]"
  by (subst str_nat.simps) simp

lemma str_nat_large:
  "\<not> n < 10 \<Longrightarrow> str_nat n = str_nat (n div 10) @ [digit_char (n mod 10)]"
  by (subst str_nat.simps) simp

lemma str_nat_not_empty: "str_nat n \<noteq> []"
  by (cases "n < 10") (simp_all add: str_nat_small str_nat_large)

lemma str_nat_inj: "str_nat n = str_nat k \<Longrightarrow> n = k"
proof (induction n arbitrary: k rule: str_nat.induct)
  case (1 n)
  show ?case
  proof (cases "n < 10")
    case True
    note n = this
    show ?thesis
    proof (cases "k < 10")
      case True
      with n "1.prems" show ?thesis
        by (simp add: str_nat_small digit_char_inj)
    next
      case False
      with n "1.prems" str_nat_not_empty [of "k div 10"] show ?thesis
        by (simp add: str_nat_small str_nat_large append_eq_Cons_conv)
    qed
  next
    case False
    note n = this
    show ?thesis
    proof (cases "k < 10")
      case True
      with n "1.prems" str_nat_not_empty [of "n div 10"] show ?thesis
        by (simp add: str_nat_small str_nat_large Cons_eq_append_conv)
    next
      case False
      with n "1.prems" have e: "str_nat (n div 10) = str_nat (k div 10)"
        and d: "digit_char (n mod 10) = digit_char (k mod 10)"
        by (simp_all add: str_nat_large)
      from "1.IH" [OF n e] have "n div 10 = k div 10" .
      moreover from d have "n mod 10 = k mod 10"
        by (intro digit_char_inj) simp_all
      ultimately show ?thesis
        by (metis div_mult_mod_eq)
    qed
  qed
qed

lemma temp_candidate_inj: "temp_candidate p n = temp_candidate p k \<Longrightarrow> n = k"
  by (auto simp: temp_candidate_def with_name_def str_nat_inj split: if_splits)

lemma taken_candidates_finite:
  "finite {c. path_exists fs (temp_candidate p c) = Inr True}"
proof -
  have "{c. path_exists fs (temp_candidate p c) = Inr True}
          \<subseteq> temp_candidate p -` (fst ` set fs)"
  proof
    fix c assume "c \<in> {c. path_exists fs (temp_candidate p c) = Inr True}"
    then have "map_of fs (temp_candidate p c) = Some None"
      by (auto simp: path_exists_def split: option.splits)
    then have "(temp_candidate p c, None) \<in> set fs" by (rule map_of_SomeD)
    then have "temp_candidate p c \<in> fst ` set fs" by force
    then show "c \<in> temp_candidate p -` (fst ` set fs)" by simp
  qed
  moreover have "finite (temp_candidate p -` (fst ` set fs))"
    by (intro finite_vimageI) (auto intro: injI temp_candidate_inj)
  ultimately show ?thesis by (rule finite_subset)
qed

function temp_path_loop :: "(path \<times> exn option) list \<Rightarrow> path \<Rightarrow> nat \<Rightarrow> exn + path" where
  "temp_path_loop fs p counter =
     (case path_exists fs (temp_candidate p counter) of
        Inl e \<Rightarrow> Inl e
      | Inr taken \<Rightarrow>
          if \<not> taken then Inr (temp_candidate p counter)
          else temp_path_loop fs p (counter + 1))"
  by pat_completeness auto

termination
proof (relation "measure (\<lambda>(fs, p, counter).
          card {c. counter \<le> c \<and> path_exists fs (temp_candidate p c) = Inr True})")
  show "wf (measure (\<lambda>(fs, p, counter).
          card {c. counter \<le> c \<and> path_exists fs (temp_candidate p c) = Inr True}))"
    by simp
next
  fix fs :: "(path \<times> exn option) list" and p :: path and counter :: nat and taken :: bool
  assume "path_exists fs (temp_candidate p counter) = Inr taken" and "\<not> \<not> taken"
  then have here: "path_exists fs (temp_candidate p counter) = Inr True" by simp
  have fin: "finite {c. counter \<le> c \<and> path_exists fs (temp_candidate p c) = Inr True}"
    by (rule finite_subset [OF _ taken_candidates_finite [of fs p]]) auto
  have "{c. counter + 1 \<le> c \<and> path_exists fs (temp_candidate p c) = Inr True}
          \<subset> {c. counter \<le> c \<and> path_exists fs (temp_candidate p c) = Inr True}"
  proof (rule psubsetI)
    show "{c. counter + 1 \<le> c \<and> path_exists fs (temp_candidate p c) = Inr True}
            \<subseteq> {c. counter \<le> c \<and> path_exists fs (temp_candidate p c) = Inr True}"
      by auto
    from here have "counter \<in> {c. counter \<le> c \<and> path_exists fs (temp_candidate p c) = Inr True}"
      by simp
    moreover have "counter \<notin> {c. counter + 1 \<le> c \<and> path_exists fs (temp_candidate p c) = Inr True}"
      by simp
    ultimately show "{c. counter + 1 \<le> c \<and> path_exists fs (temp_candidate p c) = Inr True}
            \<noteq> {c. counter \<le> c \<and> path_exists fs (temp_candidate p c) = Inr True}"
      by blast
  qed
  from psubset_card_mono [OF fin this]
  show "((fs, p, counter + 1), (fs, p, counter))
          \<in> measure (\<lambda>(fs, p, counter).
               card {c. counter \<le> c \<and> path_exists fs (temp_candidate p c) = Inr True})"
    by simp
qed

declare temp_path_loop.simps [simp del]

definition temp_output_path :: "(path \<times> exn option) list \<Rightarrow> path \<Rightarrow> exn + path" where
  "temp_output_path fs p =
     (if \<not> has_name p then Inl ValueError
      else
        (case path_exists fs (temp_first p) of
           Inl e \<Rightarrow> Inl e
         | Inr taken \<Rightarrow> if \<not> taken then Inr (temp_first p) else temp_path_loop fs p 1))"

subsection \<open>\<^verbatim>\<open>_process_item\<close>\<close>

text \<open>
  The fields of \<^verbatim>\<open>AppConfig\<close> that the engine reads, apart from those it only hands
  to the command builder. \<open>input_dir\<close> is held as \<^verbatim>\<open>Path(config.input_dir)\<close>.
  \<open>output_dir\<close> is \<open>None\<close> for the empty string, which the engine reads as no output
  directory, and the \<^verbatim>\<open>Path\<close> of the string otherwise; \<open>Some []\<close> is the directory
  \<open>.\<close> then.
\<close>

record AppConfig =
  input_dir :: path
  output_dir :: "path option"
  extensions :: "string list"
  parallel :: bool
  workers :: int
  dry_run :: bool
  collision_policy :: string

text \<open>
  What one call of \<^verbatim>\<open>_process_item\<close> finds outside itself: the cancellation flag at
  the points where it reads it (the flag is only ever set, never cleared), the outcome of
  each library call, the file system as the search for the temporary path finds it, and
  the process's output. \<open>probe_result\<close> is \<open>Inl\<close> of the exception's text when
  \<^verbatim>\<open>probe_media\<close> raises. \<open>temp_exists\<close> says whether the temporary file is there when
  \<^verbatim>\<open>_cleanup_partial\<close> looks for it. \<open>finalize_raises\<close> is the text of the
  \<^verbatim>\<open>OSError\<close> of the publishing block, if it raises.
\<close>

record worker_env =
  cancel_at_entry :: bool
  mkdir_raises :: "exn option"
  fs_entries :: "(path \<times> exn option) list"
  temp_exists :: bool
  stat_input :: "nat option"
  probe_result :: "string + MediaInfo"
  popen_raises :: "exn option"
  proc :: popen
  stdout_lines :: "(bool \<times> string) list"
  stderr_lines :: "string list"
  returncode :: int
  cancel_at_exit :: bool
  output_exists :: bool
  finalize_raises :: "string option"
  stat_output :: "nat option"
  probe_output :: "MediaInfo option"

definition set_item :: "(WorkItem \<Rightarrow> WorkItem) \<Rightarrow> run \<Rightarrow> run" where
  "set_item f r = r\<lparr>item := f (item r)\<rparr>"

definition cleanup_partial :: "worker_env \<Rightarrow> path \<Rightarrow> effect list" where
  "cleanup_partial env temp_output =
     (if temp_exists env then [Unlink (str_path temp_output)] else [])"

definition failure_text :: "string list \<Rightarrow> string" where
  "failure_text lines =
     (let e = strip (join ''; '' (map rstrip lines)) in if e = [] then ''ffmpeg failed'' else e)"

definition finish_item :: "bool \<Rightarrow> AppConfig \<Rightarrow> worker_env \<Rightarrow> path \<Rightarrow> run \<Rightarrow> run" where
  "finish_item on_item_update cfg env temp_output r =
     (let r1 = (if returncode env \<noteq> 0
                then set_item (\<lambda>i. i\<lparr>status := STATUS_FAILED,
                                       error := failure_text (stderr_lines env)\<rparr>) r
                else set_item (\<lambda>i. i\<lparr>status := STATUS_COMPLETED, progress := Some 100\<rparr>) r);
          r2 = (if status (item r1) = STATUS_COMPLETED then
                  (case finalize_raises env of
                     None \<Rightarrow>
                       perform ((if output_exists env \<and> collision_policy cfg = ''overwrite''
                                 then [Unlink (output_path (item r1))] else [])
                                @ [Mkdir (output_path (item r1)),
                                   Replace (str_path temp_output) (output_path (item r1))]) r1
                   | Some msg \<Rightarrow>
                       perform (cleanup_partial env temp_output)
                         (set_item (\<lambda>i. i\<lparr>status := STATUS_FAILED,
                                             error := ''Failed to finalize output: '' @ msg\<rparr>) r1))
                else perform (cleanup_partial env temp_output) r1);
          r3 = (if status (item r2) = STATUS_COMPLETED
                then set_item (\<lambda>i. i\<lparr>output_bytes := stat_output env\<rparr>) r2 else r2);
          r4 = (if status (item r3) = STATUS_COMPLETED
                then set_item (\<lambda>i. i\<lparr>output_media := probe_output env\<rparr>) r3 else r3)
      in log_item (emit_item on_item_update r4))"

definition encode_item ::
    "bool \<Rightarrow> AppConfig \<Rightarrow> worker_env \<Rightarrow> path \<Rightarrow> MediaInfo \<Rightarrow> run \<Rightarrow> run" where
  "encode_item on_item_update cfg env temp_output m r =
     (case popen_raises env of
        Some e \<Rightarrow> r\<lparr>raised := Some e\<rparr>
      | None \<Rightarrow>
          (let r1 = perform [Popen (str_path temp_output), Register (item_id (item r))] r;
               looped = read_stdout on_item_update (proc env) m (stdout_lines env) r1;
               r2 = fst looped;
               r3 = (if raised r2 = None then perform [ProcWait] r2 else r2);
               r4 = perform [ClosePipes, Unregister (item_id (item r))] r3
           in if raised r4 \<noteq> None then r4
              else if snd looped \<or> cancel_at_exit env then
                log_item (emit_item on_item_update
                  (perform (cleanup_partial env temp_output)
                     (set_item (\<lambda>i. i\<lparr>status := STATUS_CANCELED\<rparr>) r4)))
              else finish_item on_item_update cfg env temp_output r4))"

definition probe_failure_text :: "string \<Rightarrow> string" where
  "probe_failure_text error_msg =
     (if contains ''moov atom not found'' (lower error_msg)
         \<or> contains ''invalid data found when processing input'' (lower error_msg)
      then ''File is corrupted or incomplete: '' @ error_msg
      else error_msg)"

text \<open>
  \<^verbatim>\<open>_process_item\<close>. An exception that no handler of the method catches ends the call
  where it is raised: the run so far is returned with the exception in \<open>raised\<close>.
\<close>

definition process_item :: "bool \<Rightarrow> AppConfig \<Rightarrow> worker_env \<Rightarrow> WorkItem \<Rightarrow> run" where
  "process_item on_item_update cfg env it =
     (if cancel_at_entry env then
        emit_item on_item_update
          \<lparr>item = it\<lparr>status := STATUS_CANCELED\<rparr>, effects = [], raised = None\<rparr>
      else
        (let r1 = perform [Mkdir (output_path it)]
                    (emit_item on_item_update
                       \<lparr>item = it\<lparr>status := STATUS_RUNNING, progress := Some 0\<rparr>,
                        effects = [], raised = None\<rparr>)
         in case mkdir_raises env of
              Some e \<Rightarrow> r1\<lparr>raised := Some e\<rparr>
            | None \<Rightarrow>
                (case temp_output_path (fs_entries env) (parse_path (output_path it)) of
                   Inl e \<Rightarrow> r1\<lparr>raised := Some e\<rparr>
                 | Inr temp_output \<Rightarrow>
                     (let r2 = set_item (\<lambda>i. i\<lparr>input_bytes := stat_input env\<rparr>) r1 in
                      if dry_run cfg then
                        log_item (emit_item on_item_update
                          (set_item (\<lambda>i. i\<lparr>status := STATUS_SKIPPED, message := ''dry-run''\<rparr>) r2))
                      else
                        (let r3 = perform [ProbeMedia (input_path it)] r2 in
                         case probe_result env of
                           Inl error_msg \<Rightarrow>
                             log_item (emit_item on_item_update
                               (set_item (\<lambda>i. i\<lparr>status := STATUS_FAILED,
                                                   error := probe_failure_text error_msg\<rparr>) r3))
                         | Inr m \<Rightarrow>
                             encode_item on_item_update cfg env temp_output m
                               (set_item
                                  (\<lambda>i. i\<lparr>media := Some m,
                                         progress := (if duration m = None
                                                          \<or> duration m = Some (Finite 0)
                                                       then None else progress i)\<rparr>) r3))))))"

subsection \<open>\<^verbatim>\<open>BatchHandle\<close>\<close>

text \<open>
  \<^verbatim>\<open>BatchLogger\<close> as far as \<^verbatim>\<open>close\<close> goes: each of the two files is absent
  (\<open>None\<close>) or present and open or closed, and \<open>close_calls\<close> counts the calls of
  \<^verbatim>\<open>close\<close>.
\<close>

record BatchLogger =
  enable_csv :: bool
  enable_json :: bool
  csv_file :: "bool option"
  json_file :: "bool option"
  close_calls :: nat

definition logger_close :: "BatchLogger \<Rightarrow> BatchLogger" where
  "logger_close l =
     l\<lparr>csv_file := map_option (\<lambda>_. False) (csv_file l),
       json_file := map_option (\<lambda>_. False) (json_file l),
       close_calls := close_calls l + 1\<rparr>"

text \<open>
  The work queue holds references to the objects of \<open>items\<close>, so it is a list of
  positions in \<open>items\<close>. \<open>running_processes\<close> keeps the dictionary's insertion order.
  \<open>threads\<close> holds \<^verbatim>\<open>is_alive()\<close> of each worker. \<open>on_item_update\<close> says whether a
  callback is registered; \<open>reported\<close> are the items handed to it by the handle's own
  methods, and \<open>proc_calls\<close> the calls these methods made on registered processes, by
  job id.
\<close>

record BatchHandle =
  items :: "WorkItem list"
  work_queue :: "nat list"
  pause_event :: bool
  cancel_event :: bool
  running_processes :: "(int \<times> popen) list"
  threads :: "bool list"
  logger :: BatchLogger
  closed :: bool
  on_item_update :: bool
  reported :: "WorkItem list"
  proc_calls :: "(int \<times> call) list"

definition pause :: "BatchHandle \<Rightarrow> BatchHandle" where
  "pause h = h\<lparr>pause_event := False\<rparr>"

definition resume :: "BatchHandle \<Rightarrow> BatchHandle" where
  "resume h = h\<lparr>pause_event := True\<rparr>"

fun terminate_all :: "(int \<times> popen) list \<Rightarrow> exn option \<times> (int \<times> call) list" where
  "terminate_all [] = (None, [])"
| "terminate_all ((k, p) # ps) =
     (case terminate_process p of
        (Some e, cs) \<Rightarrow> (Some e, map (Pair k) cs)
      | (None, cs) \<Rightarrow>
          (case terminate_all ps of (e, rest) \<Rightarrow> (e, map (Pair k) cs @ rest)))"

definition mark_canceled :: "WorkItem \<Rightarrow> WorkItem" where
  "mark_canceled i = i\<lparr>status := STATUS_CANCELED, message := ''canceled''\<rparr>"

definition mark_queued_canceled :: "BatchHandle \<Rightarrow> BatchHandle" where
  "mark_queued_canceled h =
     (let updated = map mark_canceled (filter (\<lambda>i. status i = STATUS_QUEUED) (items h)) in
      h\<lparr>items := map (\<lambda>i. if status i = STATUS_QUEUED then mark_canceled i else i) (items h),
        reported := reported h @ (if on_item_update h then updated else [])\<rparr>)"

text \<open>
  \<^verbatim>\<open>cancel\<close> gives the exception that leaves it, if any, and the handle as it is then.
\<close>

definition cancel :: "BatchHandle \<Rightarrow> exn option \<times> BatchHandle" where
  "cancel h =
     (let h1 = h\<lparr>cancel_event := True\<rparr>;
          t = terminate_all (running_processes h1);
          h2 = h1\<lparr>proc_calls := proc_calls h1 @ snd t\<rparr>
      in case fst t of
           Some e \<Rightarrow> (Some e, h2)
         | None \<Rightarrow> (None, mark_queued_canceled h2))"

fun retry_items :: "nat \<Rightarrow> WorkItem list \<Rightarrow> WorkItem list \<times> nat list" where
  "retry_items k [] = ([], [])"
| "retry_items k (i # rest) =
     (case retry_items (Suc k) rest of
        (rest', put) \<Rightarrow>
          if status i = STATUS_FAILED
          then (i\<lparr>status := STATUS_QUEUED, progress := Some 0, error := []\<rparr> # rest', k # put)
          else (i # rest', put))"

definition retry_failed :: "BatchHandle \<Rightarrow> BatchHandle" where
  "retry_failed h =
     (case retry_items 0 (items h) of
        (items', put) \<Rightarrow> h\<lparr>items := items', work_queue := work_queue h @ put\<rparr>)"

definition is_running :: "BatchHandle \<Rightarrow> bool" where
  "is_running h = (\<exists>t \<in> set (threads h). t)"

text \<open>
  \<^verbatim>\<open>wait\<close> joins every worker thread first, so it returns only once none is alive:
  \<open>None\<close> is the call that is still blocked in a \<^verbatim>\<open>join\<close>.
\<close>

definition wait :: "BatchHandle \<Rightarrow> BatchHandle option" where
  "wait h =
     (if is_running h then None
      else if \<not> closed h then Some (h\<lparr>logger := logger_close (logger h), closed := True\<rparr>)
      else Some h)"

subsection \<open>\<^verbatim>\<open>scan_inputs\<close>\<close>

text \<open>
  The branch on the output path: the job's first status and message and its destination
  (\<open>None\<close> inside when no output directory is set). \<open>rel\<close> is the file's path
  relative to the input directory. The outer \<open>None\<close> is the scan that never returns.
\<close>

definition plan_output ::
    "AppConfig \<Rightarrow> (path \<Rightarrow> bool) \<Rightarrow> path \<Rightarrow> (Status \<times> string \<times> path option) option" where
  "plan_output cfg fs_exists rel =
     (case output_dir cfg of
        None \<Rightarrow> Some (STATUS_QUEUED, ''output not set'', None)
      | Some output_root \<Rightarrow>
          let out_path = output_root @ rel in
          if fs_exists out_path then
            (if collision_policy cfg = ''skip''
             then Some (STATUS_SKIPPED, ''output exists'', Some out_path)
             else if collision_policy cfg = ''suffix''
             then map_option (\<lambda>final. (STATUS_QUEUED, [], Some final)) (suffix_path fs_exists out_path)
             else Some (STATUS_QUEUED, [], Some out_path))
          else Some (STATUS_QUEUED, [], Some out_path))"

definition new_item :: "int \<Rightarrow> string \<Rightarrow> string \<Rightarrow> Status \<Rightarrow> string \<Rightarrow> nat option \<Rightarrow> WorkItem" where
  "new_item n inp out st msg bytes =
     \<lparr>item_id = n, input_path = inp, output_path = out, status = st, progress = Some 0,
      message = msg, error = [], input_bytes = bytes, output_bytes = None, media = None,
      output_media = None, thumbnail_path = None\<rparr>"

text \<open>
  The two nested loops over \<^verbatim>\<open>os.walk\<close>, on the files in walk order, each given
  relative to the input directory. \<open>stat_size\<close> is \<^verbatim>\<open>st_size\<close>, or \<open>None\<close> for the
  \<^verbatim>\<open>OSError\<close>.
\<close>

fun scan_files ::
    "AppConfig \<Rightarrow> (path \<Rightarrow> bool) \<Rightarrow> (path \<Rightarrow> nat option) \<Rightarrow> int \<Rightarrow> path list \<Rightarrow> WorkItem list option" where
  "scan_files cfg fs_exists stat_size n [] = Some []"
| "scan_files cfg fs_exists stat_size n (rel # rest) =
     (if lower (path_suffix (input_dir cfg @ rel)) \<notin> set (map lower (extensions cfg))
      then scan_files cfg fs_exists stat_size n rest
      else
        (case plan_output cfg fs_exists rel of
           None \<Rightarrow> None
         | Some (st, msg, final_out) \<Rightarrow>
             map_option
               (\<lambda>found. new_item n (str_path (input_dir cfg @ rel))
                           (case final_out of None \<Rightarrow> [] | Some f \<Rightarrow> str_path f)
                           st msg (stat_size (input_dir cfg @ rel)) # found)
               (scan_files cfg fs_exists stat_size (n + 1) rest)))"

definition scan_inputs ::
    "AppConfig \<Rightarrow> (path \<Rightarrow> bool) \<Rightarrow> (path \<Rightarrow> nat option) \<Rightarrow> (path \<times> string list) list \<Rightarrow> WorkItem list option" where
  "scan_inputs cfg fs_exists stat_size walk =
     scan_files cfg fs_exists stat_size 1
       (concat (map (\<lambda>(root, files). map (\<lambda>name. root @ [name]) files) walk))"

subsection \<open>What the two sweeps do to one item\<close>

text \<open>
  The body of the loop of \<^verbatim>\<open>retry_failed\<close> and of \<^verbatim>\<open>_mark_queued_canceled\<close>, on one
  item.
\<close>

definition retried :: "WorkItem \<Rightarrow> WorkItem" where
  "retried i = (if status i = STATUS_FAILED
                then i\<lparr>status := STATUS_QUEUED, progress := Some 0, error := []\<rparr> else i)"

definition swept :: "WorkItem \<Rightarrow> WorkItem" where
  "swept i = (if status i = STATUS_QUEUED then mark_canceled i else i)"

subsection \<open>Sample values\<close>

definition sample_item :: "int \<Rightarrow> Status \<Rightarrow> WorkItem" where
  "sample_item n st = new_item n ''in/clip.mp4'' ''out/clip.mp4'' st [] None"

definition sample_handle :: "WorkItem list \<Rightarrow> (int \<times> popen) list \<Rightarrow> BatchHandle" where
  "sample_handle its procs =
     \<lparr>items = its, work_queue = [], pause_event = True, cancel_event = False,
      running_processes = procs, threads = [False, False],
      logger = \<lparr>enable_csv = True, enable_json = False, csv_file = Some True,
                json_file = None, close_calls = 0\<rparr>,
      closed = False, on_item_update = True, reported = [], proc_calls = []\<rparr>"

definition stubborn_process :: popen where
  "stubborn_process = \<lparr>on_terminate = None, on_wait = Some TimeoutExpired, on_kill = Some OSError\<rparr>"

definition sample_config :: AppConfig where
  "sample_config =
     \<lparr>input_dir = [''in''], output_dir = Some [''out''], extensions = [''.mp4''], parallel = True,
      workers = 2, dry_run = False, collision_policy = ''suffix''\<rparr>"

definition sample_env :: worker_env where
  "sample_env =
     \<lparr>cancel_at_entry = False, mkdir_raises = None,
      fs_entries = [([''out'', ''clip.partial.mp4''], None)],
      temp_exists = True, stat_input = Some 1000,
      probe_result = Inr (MediaInfo_default\<lparr>duration := Some (Finite 10)\<rparr>),
      popen_raises = None, proc = stubborn_process,
      stdout_lines = [(False, ''out_time_ms=500000''), (False, ''out_time_ms=1000000''),
                      (False, ''progress=end'')],
      stderr_lines = [], returncode = 0, cancel_at_exit = False, output_exists = False,
      finalize_raises = None, stat_output = Some 500, probe_output = None\<rparr>"

text \<open>
  The error text names the file as damaged when it carries the words that
  \<^verbatim>\<open>_process_item\<close> puts in front of a classified probe failure.
\<close>

definition corruption_classified :: "string \<Rightarrow> bool" where
  "corruption_classified e = contains ''File is corrupted or incomplete'' e"

subsection \<open>Readings of the progress stream\<close>

text \<open>
  The lines of a stream as the loop classifies them, the elapsed times among them, and
  the condition on a stream that the encoder keeps: an end-of-stream marker is followed
  by no elapsed time. \<open>nondecreasing\<close> says of a list of reported percentages
  that each is a number and none is above a later one. \<open>exact_percent\<close> is the
  percentage as the specification words it, in exact arithmetic: the floor of
  elapsed / (duration * 1000000) * 100, clamped to the range from 0 to 100.
\<close>

definition events :: "(bool \<times> string) list \<Rightarrow> progress_line list" where
  "events lines = map (\<lambda>l. parse_line (snd l)) lines"

fun out_times :: "progress_line list \<Rightarrow> int list" where
  "out_times [] = []"
| "out_times (OutTime x # es) = x # out_times es"
| "out_times (e # es) = out_times es"

definition end_marker_last :: "progress_line list \<Rightarrow> bool" where
  "end_marker_last es = (out_times (dropWhile (\<lambda>e. e \<noteq> ProgressEnd) es) = [])"

definition nondecreasing :: "int option list \<Rightarrow> bool" where
  "nondecreasing ps =
     sorted_wrt (\<lambda>a b. case a of None \<Rightarrow> False
                            | Some x \<Rightarrow> (case b of None \<Rightarrow> False | Some y \<Rightarrow> x \<le> y)) ps"

definition exact_percent :: "rat \<Rightarrow> int \<Rightarrow> int" where
  "exact_percent d x = max 0 (min 100 \<lfloor>of_int x / (d * 1000000) * 100\<rfloor>)"

subsection \<open>The destination that the \<open>suffix\<close> policy asks for\<close>

text \<open>
  \<open>spec_suffix_choice\<close> follows the words of the specification, not the code: a
  destination that does not exist is kept; one that exists is replaced by the candidate
  with the smallest positive number that does not exist. \<open>accepted\<close> is the extension
  filter of the scan, \<open>walked_files\<close> the files of the walk in its order.
\<close>

definition spec_suffix_choice :: "(path \<Rightarrow> bool) \<Rightarrow> path \<Rightarrow> path" where
  "spec_suffix_choice fs_exists out_path =
     (if fs_exists out_path
      then suffix_candidate out_path (LEAST n. 0 < n \<and> \<not> fs_exists (suffix_candidate out_path n))
      else out_path)"

definition accepted :: "AppConfig \<Rightarrow> path \<Rightarrow> bool" where
  "accepted cfg rel = (lower (path_suffix (input_dir cfg @ rel)) \<in> set (map lower (extensions cfg)))"

definition walked_files :: "(path \<times> string list) list \<Rightarrow> path list" where
  "walked_files walk = concat (map (\<lambda>(root, files). map (\<lambda>name. root @ [name]) files) walk)"

definition sample_fs :: "path \<Rightarrow> bool" where
  "sample_fs q = (q \<in> set [[''out'', ''clip.mp4''], [''out'', ''clip_1.mp4'']])"

section \<open>Properties\<close>

lemmas text_defs = strip_def lstrip_def rstrip_def is_space_def
lemmas int_defs = py_int_def strip_int_def is_int_space_def parse_digits_def is_digit_def
  digit_val_def

subsection \<open>Rounding to binary64\<close>

text \<open>
  The values of the progress mapping at the sample inputs, by evaluation of the rounding.
\<close>

lemma floor_rat_numeral: "\<lfloor>numeral a / numeral b :: rat\<rfloor> = numeral a div numeral b"
  by (metis floor_divide_of_int_eq of_int_numeral)

lemma floor_rat_minus_numeral:
  "\<lfloor>- (numeral a / numeral b) :: rat\<rfloor> = - numeral a div numeral b"
  by (metis floor_divide_of_int_eq minus_divide_left of_int_minus of_int_numeral)

lemmas float_defs = progress_from_out_time_def fle_def fmul_def fdiv_def float_of_int_def
  math_floor_def round64_def round_pos_def ulp_def binade_def round_half_even_def Let_def
  power_int_minus floor_rat_numeral floor_rat_minus_numeral

lemma progress_500000: "progress_from_out_time 500000 (Some (Finite 10)) = Inr (Some 5)"
  by (simp add: float_defs)

lemma progress_1000000: "progress_from_out_time 1000000 (Some (Finite 10)) = Inr (Some 10)"
  by (simp add: float_defs)

lemma progress_600000: "progress_from_out_time 600000 (Some (Finite 10)) = Inr (Some 6)"
  by (simp add: float_defs)

lemma progress_2900000: "progress_from_out_time 2900000 (Some (Finite 10)) = Inr (Some 28)"
  by (simp add: float_defs)

subsection \<open>Rounding keeps the order\<close>

text \<open>
  \<open>binade\<close> finds the power of two below its argument, so \<open>ulp\<close> is the spacing
  there; rounding to the nearest multiple of the spacing keeps the order of the rationals,
  also across a change of the spacing, where the power of two between the two arguments
  is representable.
\<close>

declare log2n.simps [simp del]

lemma log2n_bounds: "0 < n \<Longrightarrow> 2 ^ log2n n \<le> n \<and> n < 2 ^ Suc (log2n n)"
proof (induction n rule: log2n.induct)
  case (1 n)
  show ?case
  proof (cases "n < 2")
    case True
    with "1.prems" have "n = 1" by simp
    then show ?thesis by (simp add: log2n.simps)
  next
    case False
    then have pos: "0 < n div 2" by simp
    from "1.IH" [OF False pos] have lo: "2 ^ log2n (n div 2) \<le> n div 2"
      and hi: "n div 2 < 2 ^ Suc (log2n (n div 2))" by simp_all
    have l: "log2n n = Suc (log2n (n div 2))" using False by (simp add: log2n.simps)
    from lo have a: "2 * 2 ^ log2n (n div 2) \<le> n" by linarith
    from hi have b: "n < 2 * 2 ^ Suc (log2n (n div 2))" by linarith
    from a b show ?thesis by (simp add: l)
  qed
qed

lemma binade_bounds:
  assumes "0 < a"
  shows "2 powi (binade a) \<le> a \<and> a < 2 powi (binade a + 1)"
proof (cases "1 \<le> a")
  case True
  let ?n = "nat \<lfloor>a\<rfloor>"
  from True have f: "1 \<le> \<lfloor>a\<rfloor>" by simp
  then have n: "0 < ?n" by simp
  note b = log2n_bounds [OF n]
  have e: "binade a = int (log2n ?n)" using True by (simp add: binade_def)
  from b have "int (2 ^ log2n ?n) \<le> int ?n" by (simp only: of_nat_le_iff)
  then have "(2::int) ^ log2n ?n \<le> \<lfloor>a\<rfloor>" using f by simp
  then have "of_int ((2::int) ^ log2n ?n) \<le> a" by (simp only: le_floor_iff)
  then have lo: "(2::rat) ^ log2n ?n \<le> a" by simp
  from b have "int ?n < int (2 ^ Suc (log2n ?n))" by (simp only: of_nat_less_iff)
  then have "\<lfloor>a\<rfloor> < (2::int) ^ Suc (log2n ?n)" using f by simp
  then have "a < of_int ((2::int) ^ Suc (log2n ?n))" by (simp only: floor_less_iff)
  then have hi: "a < (2::rat) ^ Suc (log2n ?n)" by simp
  have p: "(2::rat) powi (int (log2n ?n) + 1) = 2 ^ Suc (log2n ?n)"
    by (simp add: power_int_add power_int_of_nat)
  from lo hi show ?thesis unfolding e p by (simp add: power_int_of_nat)
next
  case False
  with assms have a1: "a < 1" by simp
  define z where "z = \<lceil>1 / a\<rceil>"
  define n where "n = nat z"
  define k where "k = Suc (log2n (n - 1))"
  have c: "- \<lfloor>- (1 / a)\<rfloor> = z" by (simp add: z_def ceiling_def)
  from assms a1 have "1 < 1 / a" by simp
  then have "of_int 1 < 1 / a" by simp
  then have "1 < z" unfolding z_def by (simp only: less_ceiling_iff)
  then have z2: "2 \<le> z" by simp
  then have nz: "int n = z" by (simp add: n_def)
  from z2 nz have n2: "2 \<le> n" by linarith
  then have n1: "0 < n - 1" by simp
  note b = log2n_bounds [OF n1]
  have e: "binade a = - int k" using False n2 by (simp add: binade_def Let_def c n_def [symmetric] k_def)
  from b n2 have "n \<le> 2 ^ k" unfolding k_def by simp linarith
  then have "int n \<le> int (2 ^ k)" by (simp only: of_nat_le_iff)
  then have "z \<le> (2::int) ^ k" by (simp add: nz)
  then have "1 / a \<le> of_int ((2::int) ^ k)" unfolding z_def by (simp only: ceiling_le_iff)
  then have "1 / a \<le> (2::rat) ^ k" by simp
  with assms have "1 \<le> 2 ^ k * a" by (simp add: field_simps)
  then have lo: "1 / 2 ^ k \<le> a" by (simp add: field_simps)
  from b n2 have "2 ^ log2n (n - 1) < n" by linarith
  then have "int (2 ^ log2n (n - 1)) < int n" by (simp only: of_nat_less_iff)
  then have "(2::int) ^ log2n (n - 1) < z" by (simp add: nz)
  then have "of_int ((2::int) ^ log2n (n - 1)) < 1 / a" unfolding z_def by (simp only: less_ceiling_iff)
  then have "(2::rat) ^ log2n (n - 1) < 1 / a" by simp
  with assms have "2 ^ log2n (n - 1) * a < 1" by (simp add: field_simps)
  then have hi: "a < 1 / 2 ^ log2n (n - 1)" by (simp add: field_simps)
  have p1: "(2::rat) powi (- int k) = 1 / 2 ^ k"
    by (simp add: power_int_minus power_int_of_nat field_simps)
  have p2: "(2::rat) powi (- int k + 1) = 1 / 2 ^ log2n (n - 1)"
    unfolding k_def by (simp add: power_int_add power_int_minus power_int_of_nat field_simps)
  from lo hi show ?thesis unfolding e p1 p2 by simp
qed


lemma binade_mono:
  assumes "0 < a" and "a \<le> b"
  shows "binade a \<le> binade b"
proof (rule ccontr)
  assume "\<not> binade a \<le> binade b"
  then have "binade b + 1 \<le> binade a" by simp
  then have "(2::rat) powi (binade b + 1) \<le> 2 powi binade a"
    by (rule power_int_increasing) simp
  also from binade_bounds [OF assms(1)] have "\<dots> \<le> a" by simp
  finally have "2 powi (binade b + 1) \<le> b" using assms(2) by simp
  moreover from assms have "0 < b" by simp
  from binade_bounds [OF this] have "b < 2 powi (binade b + 1)" by simp
  ultimately show False by simp
qed

lemma binade_eqI:
  assumes "2 powi e \<le> a" and "a < 2 powi (e + 1)"
  shows "binade a = e"
proof -
  have "(0::rat) < 2 powi e" by (simp add: zero_less_power_int)
  from this assms(1) have pos: "0 < a" by (rule less_le_trans)
  note b = binade_bounds [OF pos]
  have "\<not> binade a < e"
  proof
    assume "binade a < e"
    then have "binade a + 1 \<le> e" by simp
    then have "(2::rat) powi (binade a + 1) \<le> 2 powi e"
      by (rule power_int_increasing) simp
    with assms(1) b show False by simp
  qed
  moreover have "\<not> e < binade a"
  proof
    assume "e < binade a"
    then have "e + 1 \<le> binade a" by simp
    then have "(2::rat) powi (e + 1) \<le> 2 powi binade a"
      by (rule power_int_increasing) simp
    with assms(2) b show False by simp
  qed
  ultimately show ?thesis by simp
qed

lemma binade_power: "binade (2 powi k) = k"
  by (rule binade_eqI) (simp_all add: power_int_strict_increasing)

lemma round_half_even_floor:
  "\<lfloor>t\<rfloor> \<le> round_half_even t \<and> round_half_even t \<le> \<lfloor>t\<rfloor> + 1"
  by (simp add: round_half_even_def Let_def)

lemma round_half_even_of_int: "round_half_even (of_int n) = n"
  by (simp add: round_half_even_def Let_def)

lemma round_half_even_mono:
  assumes "t \<le> u"
  shows "round_half_even t \<le> round_half_even u"
proof (cases "\<lfloor>t\<rfloor> < \<lfloor>u\<rfloor>")
  case True
  from round_half_even_floor [of t] have "round_half_even t \<le> \<lfloor>t\<rfloor> + 1" by simp
  also from True have "\<dots> \<le> \<lfloor>u\<rfloor>" by simp
  also from round_half_even_floor [of u] have "\<dots> \<le> round_half_even u" by simp
  finally show ?thesis .
next
  case False
  moreover from assms have "\<lfloor>t\<rfloor> \<le> \<lfloor>u\<rfloor>" by (rule floor_mono)
  ultimately have f: "\<lfloor>t\<rfloor> = \<lfloor>u\<rfloor>" by simp
  from assms show ?thesis
    by (simp add: round_half_even_def Let_def f)
qed

lemma round_half_even_error:
  "\<bar>of_int (round_half_even t) - t\<bar> \<le> 1 / 2"
proof -
  have "of_int \<lfloor>t\<rfloor> \<le> t" and "t < of_int \<lfloor>t\<rfloor> + 1" by linarith+
  then show ?thesis
    by (auto simp: round_half_even_def Let_def abs_le_iff)
qed

lemma ulp_pos: "0 < ulp a"
  by (simp add: ulp_def zero_less_power_int)

lemma round_pos_mono:
  assumes "0 < a" and "a \<le> b"
  shows "round_pos a \<le> round_pos b"
proof -
  define qa where "qa = max (binade a) (- 1022) - 52"
  define qb where "qb = max (binade b) (- 1022) - 52"
  have ua: "ulp a = 2 powi qa" and ub: "ulp b = 2 powi qb"
    by (simp_all add: ulp_def qa_def qb_def)
  from assms have bpos: "0 < b" by simp
  from binade_mono [OF assms] have le: "qa \<le> qb" by (simp add: qa_def qb_def)
  show ?thesis
  proof (cases "qa = qb")
    case True
    then have u: "ulp b = ulp a" by (simp add: ua ub)
    from assms(2) ulp_pos [of a] have "a / ulp a \<le> b / ulp a"
      by (simp add: divide_right_mono)
    then have "round_half_even (a / ulp a) \<le> round_half_even (b / ulp a)"
      by (rule round_half_even_mono)
    then have "(of_int (round_half_even (a / ulp a)) :: rat) \<le> of_int (round_half_even (b / ulp a))"
      by simp
    with ulp_pos [of a] show ?thesis
      by (simp add: round_pos_def u mult_right_mono)
  next
    case False
    with le have lt: "qa + 1 \<le> qb" by simp
    have p2: "(0::rat) < 2 powi qa" "(0::rat) < 2 powi qb" by (simp_all add: zero_less_power_int)
    from binade_bounds [OF assms(1)] have "a < 2 powi (binade a + 1)" by simp
    also have "(2::rat) powi (binade a + 1) \<le> 2 powi (qa + 53)"
      by (rule power_int_increasing) (simp_all add: qa_def)
    also have "(2::rat) powi (qa + 53) = 2 powi qa * 2 powi 53"
      by (simp add: power_int_add)
    finally have "a / 2 powi qa < 2 powi 53" using p2(1) by (simp add: field_simps)
    then have "a / ulp a \<le> of_int (2 ^ 53)" by (simp add: ua)
    then have "round_half_even (a / ulp a) \<le> round_half_even (of_int (2 ^ 53))"
      by (rule round_half_even_mono)
    then have "round_half_even (a / ulp a) \<le> 2 ^ 53" by (simp only: round_half_even_of_int)
    then have "(of_int (round_half_even (a / ulp a)) :: rat) \<le> of_int (2 ^ 53)"
      by (simp only: of_int_le_iff)
    then have "round_pos a \<le> of_int (2 ^ 53) * 2 powi qa"
      using p2(1) by (simp add: round_pos_def ua mult_right_mono)
    also have "\<dots> = 2 powi (qa + 53)" by (simp add: power_int_add)
    also have "\<dots> \<le> 2 powi (qb + 52)"
      by (rule power_int_increasing) (use lt in simp_all)
    finally have upper: "round_pos a \<le> 2 powi (qb + 52)" .
    from lt have "- 1074 < qb" by (simp add: qa_def)
    then have qb: "qb = binade b - 52" by (simp add: qb_def)
    from binade_bounds [OF bpos] have "2 powi (qb + 52) \<le> b" by (simp add: qb)
    moreover have "(2::rat) powi (qb + 52) = 2 powi qb * 2 powi 52"
      by (simp add: power_int_add)
    ultimately have "2 powi 52 \<le> b / 2 powi qb" using p2(2) by (simp add: field_simps)
    then have "of_int (2 ^ 52) \<le> b / ulp b" by (simp add: ub)
    then have "round_half_even (of_int (2 ^ 52)) \<le> round_half_even (b / ulp b)"
      by (rule round_half_even_mono)
    then have "2 ^ 52 \<le> round_half_even (b / ulp b)" by (simp only: round_half_even_of_int)
    then have "(of_int (2 ^ 52) :: rat) \<le> of_int (round_half_even (b / ulp b))"
      by (simp only: of_int_le_iff)
    then have "of_int (2 ^ 52) * 2 powi qb \<le> round_pos b"
      using p2(2) by (simp add: round_pos_def ub mult_right_mono)
    moreover have "of_int (2 ^ 52) * 2 powi qb = (2::rat) powi (qb + 52)"
      by (simp add: power_int_add)
    ultimately have "2 powi (qb + 52) \<le> round_pos b" by simp
    with upper show ?thesis by simp
  qed
qed

lemma round_pos_nonneg:
  assumes "0 \<le> a"
  shows "0 \<le> round_pos a"
proof -
  from assms ulp_pos [of a] have "of_int 0 \<le> a / ulp a" by simp
  then have "round_half_even (of_int 0) \<le> round_half_even (a / ulp a)"
    by (rule round_half_even_mono)
  then have "0 \<le> round_half_even (a / ulp a)" by (simp only: round_half_even_of_int)
  with ulp_pos [of a] show ?thesis by (simp add: round_pos_def)
qed

lemma round_pos_power:
  assumes "- 1074 \<le> k"
  shows "round_pos (2 powi k) = 2 powi k"
proof -
  define q where "q = max k (- 1022) - 52"
  have u: "ulp (2 powi k) = 2 powi q" by (simp add: ulp_def binade_power q_def)
  from assms have "0 \<le> k - q" by (simp add: q_def)
  then obtain n where n: "k - q = int n" using nonneg_int_cases by blast
  have "(2::rat) powi k = 2 powi (q + int n)" using n by (simp add: algebra_simps)
  also have "\<dots> = 2 powi q * 2 ^ n" by (simp add: power_int_add power_int_of_nat)
  finally have k: "(2::rat) powi k = 2 powi q * 2 ^ n" .
  have "(2::rat) powi k / 2 powi q = of_int (2 ^ n)" unfolding k by simp
  then have "round_half_even (2 powi k / ulp (2 powi k)) = 2 ^ n"
    unfolding u by (simp only: round_half_even_of_int)
  then show ?thesis unfolding round_pos_def u by (simp add: k)
qed


lemma round64_not_nan: "round64 x \<noteq> NaN"
  by (simp add: round64_def)

lemma round64_mono:
  assumes "x \<le> y"
  shows "fle (round64 x) (round64 y)"
proof -
  consider (pp) "0 < x" | (zz) "x = 0" | (nn) "x < 0" by linarith
  then show ?thesis
  proof cases
    case pp
    with assms have y: "0 < y" by simp
    from round_pos_mono [OF pp assms] pp y show ?thesis
      by (auto simp: round64_def fle_def)
  next
    case zz
    with assms round_pos_nonneg [of y] show ?thesis by (auto simp: round64_def fle_def)
  next
    case nn
    show ?thesis
    proof (cases "y < 0")
      case True
      with assms have "0 < - y" "- y \<le> - x" by simp_all
      from round_pos_mono [OF this] nn True show ?thesis by (auto simp: round64_def fle_def)
    next
      case False
      with nn round_pos_nonneg [of "- x"] round_pos_nonneg [of y] show ?thesis
        by (auto simp: round64_def fle_def)
    qed
  qed
qed

lemma fmul_100_mono:
  assumes "fle q1 q2"
  shows "fle (fmul q1 (Finite 100)) (fmul q2 (Finite 100))"
proof (cases q1)
  case (Finite a)
  show ?thesis
  proof (cases q2)
    case (Finite b)
    with assms \<open>q1 = Finite a\<close> have "a * 100 \<le> b * 100" by (simp add: fle_def)
    from round64_mono [OF this] show ?thesis
      by (simp add: fmul_def Finite \<open>q1 = Finite a\<close>)
  next
    case PInf
    with round64_not_nan [of "a * 100"] show ?thesis
      by (cases "round64 (a * 100)") (simp_all add: fmul_def \<open>q1 = Finite a\<close> fle_def)
  next
    case NInf
    with assms \<open>q1 = Finite a\<close> show ?thesis by (simp add: fle_def)
  next
    case NaN
    with assms \<open>q1 = Finite a\<close> show ?thesis by (simp add: fle_def)
  qed
next
  case PInf
  with assms show ?thesis by (simp add: fle_def fmul_def)
next
  case NInf
  with assms round64_not_nan show ?thesis
    by (cases q2) (simp_all add: fle_def fmul_def)
next
  case NaN
  with assms show ?thesis by (simp add: fle_def)
qed

subsection \<open>The progress mapping keeps the order\<close>

text \<open>
  With the duration fixed, each step of \<open>progress_from_out_time\<close> keeps the order of
  its argument, so two calls that both return a percentage return them in the order of
  the elapsed times.
\<close>

lemma progress_some:
  assumes "progress_from_out_time e dur = Inr (Some p)"
  shows "\<exists>d x q n. dur = Some d \<and> \<not> fle d (Finite 0)
           \<and> \<not> fle (fmul d (Finite 1000000)) (Finite 0)
           \<and> float_of_int e = Inr x \<and> fdiv x (fmul d (Finite 1000000)) = Inr q
           \<and> math_floor (fmul q (Finite 100)) = Inr n \<and> p = max 0 (min 100 n)"
  using assms
  by (auto simp: progress_from_out_time_def Let_def split: option.splits if_splits sum.splits)

lemma float_of_int_Inr:
  "float_of_int e = Inr x \<Longrightarrow> \<exists>a. x = Finite a \<and> round64 (of_int e) = Finite a"
  by (cases "round64 (of_int e)") (auto simp: float_of_int_def)

lemma math_floor_Inr: "math_floor v = Inr n \<Longrightarrow> \<exists>a. v = Finite a \<and> n = \<lfloor>a\<rfloor>"
  by (cases v) (auto simp: math_floor_def)

lemma progress_from_out_time_mono:
  assumes "e1 \<le> e2"
    and "progress_from_out_time e1 dur = Inr (Some p1)"
    and "progress_from_out_time e2 dur = Inr (Some p2)"
  shows "p1 \<le> p2"
proof -
  from progress_some [OF assms(2)] obtain d x1 q1 n1 where
    d: "dur = Some d" and t0: "\<not> fle (fmul d (Finite 1000000)) (Finite 0)"
    and x1: "float_of_int e1 = Inr x1" and q1: "fdiv x1 (fmul d (Finite 1000000)) = Inr q1"
    and n1: "math_floor (fmul q1 (Finite 100)) = Inr n1" and p1: "p1 = max 0 (min 100 n1)"
    by blast
  from progress_some [OF assms(3)] d obtain x2 q2 n2 where
    x2: "float_of_int e2 = Inr x2" and q2: "fdiv x2 (fmul d (Finite 1000000)) = Inr q2"
    and n2: "math_floor (fmul q2 (Finite 100)) = Inr n2" and p2: "p2 = max 0 (min 100 n2)"
    by auto
  define total where "total = fmul d (Finite 1000000)"
  from float_of_int_Inr [OF x1] obtain a1 where a1: "x1 = Finite a1" "round64 (of_int e1) = Finite a1"
    by blast
  from float_of_int_Inr [OF x2] obtain a2 where a2: "x2 = Finite a2" "round64 (of_int e2) = Finite a2"
    by blast
  from assms(1) have "(of_int e1 :: rat) \<le> of_int e2" by simp
  from round64_mono [OF this] have a: "a1 \<le> a2" by (simp add: a1 a2 fle_def)
  from math_floor_Inr [OF n1] obtain b1 where b1: "fmul q1 (Finite 100) = Finite b1" "n1 = \<lfloor>b1\<rfloor>"
    by blast
  from math_floor_Inr [OF n2] obtain b2 where b2: "fmul q2 (Finite 100) = Finite b2" "n2 = \<lfloor>b2\<rfloor>"
    by blast
  from q1 have q1': "fdiv (Finite a1) total = Inr q1" by (simp add: total_def a1)
  from q2 have q2': "fdiv (Finite a2) total = Inr q2" by (simp add: total_def a2)
  from t0 have t0': "\<not> fle total (Finite 0)" by (simp add: total_def)
  have q: "fle q1 q2"
  proof (cases total)
    case (Finite t)
    with t0' have t: "0 < t" by (simp add: fle_def)
    with a have "a1 / t \<le> a2 / t" by (simp add: divide_right_mono)
    from round64_mono [OF this] q1' q2' t show ?thesis
      by (simp add: Finite fdiv_def)
  next
    case PInf
    with q1' q2' show ?thesis by (auto simp: fdiv_def fle_def)
  next
    case NInf
    with t0' show ?thesis by (simp add: fle_def)
  next
    case NaN
    with q1' have "q1 = NaN" by (auto simp: fdiv_def)
    with b1 show ?thesis by (simp add: fmul_def)
  qed
  from fmul_100_mono [OF q] have "b1 \<le> b2" by (simp add: b1 b2 fle_def)
  then have "n1 \<le> n2" unfolding b1 b2 by (rule floor_mono)
  then show ?thesis by (simp add: p1 p2)
qed

lemma progress_from_out_time_range:
  assumes "progress_from_out_time e dur = Inr (Some p)"
  shows "0 \<le> p \<and> p \<le> 100"
proof -
  from progress_some [OF assms] obtain n where "p = max 0 (min 100 n)" by blast
  then show ?thesis by simp
qed


lemma progress_known_not_none:
  assumes "2 powi (- 1074) \<le> d"
  shows "progress_from_out_time e (Some (Finite d)) \<noteq> Inr None"
proof -
  have tiny: "(0::rat) < 2 powi (- 1074)" by (simp add: zero_less_power_int)
  from tiny assms have dpos: "0 < d" by (rule less_le_trans)
  then have "d * 1 \<le> d * 1000000" by (intro mult_left_mono) simp_all
  with assms have le: "2 powi (- 1074) \<le> d * 1000000" by simp
  have rt: "round_pos (2 powi (- 1074)) = 2 powi (- 1074)" by (rule round_pos_power) simp
  from round_pos_mono [OF tiny le] have "2 powi (- 1074) \<le> round_pos (d * 1000000)"
    unfolding rt .
  with tiny have rp: "0 < round_pos (d * 1000000)" by (rule less_le_trans)
  from dpos have x: "0 < d * 1000000" by simp
  have g1: "\<not> fle (Finite d) (Finite 0)" using dpos by (simp add: fle_def)
  have g2: "\<not> fle (fmul (Finite d) (Finite 1000000)) (Finite 0)"
    using x rp by (simp add: fmul_def round64_def fle_def)
  show ?thesis
    using g1 g2 by (simp add: progress_from_out_time_def Let_def split: sum.splits)
qed

subsection \<open>The rounding error of the progress mapping\<close>

text \<open>
  In the normal range a rounding moves a value by at most the fraction \<open>2^-53\<close> of
  itself. The four roundings of the progress mapping move the percentage, before the
  floor, by less than one half as long as it is below \<open>2^49\<close>; above, both the rounded
  and the exact percentage are clamped to 100.
\<close>

lemma round_pos_error:
  "\<bar>round_pos a - a\<bar> \<le> ulp a / 2"
proof -
  have "round_pos a - a = (of_int (round_half_even (a / ulp a)) - a / ulp a) * ulp a"
    using ulp_pos [of a] by (simp add: round_pos_def field_simps)
  then have "\<bar>round_pos a - a\<bar> = \<bar>of_int (round_half_even (a / ulp a)) - a / ulp a\<bar> * ulp a"
    using ulp_pos [of a] by (simp add: abs_mult)
  also have "\<dots> \<le> 1 / 2 * ulp a"
    using round_half_even_error [of "a / ulp a"] ulp_pos [of a] by (intro mult_right_mono) simp_all
  finally show ?thesis by simp
qed

lemma round_pos_rel:
  assumes "2 powi (- 1022) \<le> a"
  shows "a * (1 - 1 / 2 ^ 53) \<le> round_pos a \<and> round_pos a \<le> a * (1 + 1 / 2 ^ 53)"
proof -
  have "(0::rat) < 2 powi (- 1022)" by (simp add: zero_less_power_int)
  from this assms have pos: "0 < a" by (rule less_le_trans)
  from binade_mono [OF \<open>(0::rat) < 2 powi (- 1022)\<close> assms] have b: "- 1022 \<le> binade a"
    by (simp only: binade_power)
  then have "ulp a = 2 powi (binade a + (- 52))" by (simp add: ulp_def max_def)
  also have "\<dots> = 2 powi binade a * 2 powi (- 52)" by (rule power_int_add) simp
  also from binade_bounds [OF pos] have "\<dots> \<le> a * 2 powi (- 52)"
    by (intro mult_right_mono) (simp_all add: zero_less_power_int less_imp_le)
  finally have "ulp a / 2 \<le> a * (1 / 2 ^ 53)" by (simp add: power_int_minus field_simps)
  with round_pos_error [of a] have h: "\<bar>round_pos a - a\<bar> \<le> a * (1 / 2 ^ 53)" by simp
  define c :: rat where "c = 1 / 2 ^ 53"
  from h have "round_pos a - a \<le> a * c" and "- (round_pos a - a) \<le> a * c"
    unfolding c_def [symmetric] by (simp_all only: abs_le_iff)
  then have "a * (1 - c) \<le> round_pos a \<and> round_pos a \<le> a * (1 + c)"
    unfolding right_diff_distrib distrib_left by simp
  then show ?thesis unfolding c_def .
qed

lemma rel_consts:
  fixes c :: rat
  assumes "c = 1 / 2 ^ 53"
  shows "0 < 1 - c" and "0 < 1 + c"
    and "1 / 2 \<le> (1 - c) / (1 + c)" and "(1 + c) / (1 - c) \<le> 2"
    and "1 - 1 / 2 ^ 50 \<le> (1 - c) / (1 + c) * (1 - c) * (1 - c)"
    and "(1 + c) / (1 - c) * (1 + c) * (1 + c) \<le> 1 + 1 / 2 ^ 50"
  unfolding assms by simp_all

lemma interval_mult:
  fixes x :: rat
  assumes "x * l \<le> y" and "y \<le> x * h" and "0 \<le> l'" and "0 \<le> h'"
    and "y * l' \<le> z" and "z \<le> y * h'"
  shows "x * (l * l') \<le> z \<and> z \<le> x * (h * h')"
proof -
  from mult_right_mono [OF assms(1,3)] assms(5) have "x * (l * l') \<le> z" by (simp add: mult.assoc)
  moreover from mult_right_mono [OF assms(2,4)] assms(6) have "z \<le> x * (h * h')"
    by (simp add: mult.assoc)
  ultimately show ?thesis by simp
qed

lemma interval_div:
  fixes a :: rat
  assumes "0 < D" and "0 < l2" and "0 \<le> a" and "0 \<le> l"
    and "a * l \<le> X" and "X \<le> a * h" and "D * l2 \<le> T" and "T \<le> D * h2"
  shows "a / D * (l / h2) \<le> X / T \<and> X / T \<le> a / D * (h / l2)"
proof -
  from assms(1,2) have dl: "0 < D * l2" by simp
  with assms(7) have t: "0 < T" by simp
  from assms(3,4) have al: "0 \<le> a * l" by simp
  with assms(5) have x: "0 \<le> X" by simp
  from x assms(6) have ah: "0 \<le> a * h" by simp
  from frac_le [OF x assms(5) t assms(8)] have "a * l / (D * h2) \<le> X / T" .
  moreover from frac_le [OF ah assms(6) dl assms(7)] have "X / T \<le> a * h / (D * l2)" .
  ultimately show ?thesis by simp
qed


lemma round64_zero: "round64 0 = Finite 0"
  by (simp add: round64_def)

lemma tiny_le_one: "(2::rat) powi (- 1022) \<le> 1"
  using power_int_increasing [of "- 1022" 0 "2::rat"] by simp

lemma round64_normal:
  assumes "2 powi (- 1022) \<le> a" and "a \<le> 2 ^ 1023"
  shows "\<exists>r. round64 a = Finite r \<and> a * (1 - 1 / 2 ^ 53) \<le> r \<and> r \<le> a * (1 + 1 / 2 ^ 53)"
proof -
  have "(0::rat) < 2 powi (- 1022)" by (simp add: zero_less_power_int)
  from this assms(1) have pos: "0 < a" by (rule less_le_trans)
  note rel = round_pos_rel [OF assms(1)]
  from rel have "round_pos a \<le> a * (1 + 1 / 2 ^ 53)" by simp
  also from assms(2) have "\<dots> \<le> 2 ^ 1023 * (1 + 1 / 2 ^ 53)"
    by (intro mult_right_mono) simp_all
  also have "\<dots> < 2 ^ 1023 * 2" by (intro mult_strict_left_mono) simp_all
  finally have "round_pos a < 2 ^ 1024" by simp
  then have "\<not> 2 powi 1024 \<le> round_pos a" by simp
  with pos have "round64 a = Finite (round_pos a)" by (simp add: round64_def)
  with rel show ?thesis by simp
qed


lemma clamp_close:
  "i \<le> j + 1 \<Longrightarrow> j - 1 \<le> i \<Longrightarrow> \<bar>max 0 (min 100 i) - max 0 (min 100 j)\<bar> \<le> (1::int)"
  by arith

lemma floor_close:
  fixes V E :: rat
  assumes "E - 1 / 2 \<le> V" and "V \<le> E + 1 / 2"
  shows "\<bar>max 0 (min 100 \<lfloor>V\<rfloor>) - max 0 (min 100 \<lfloor>E\<rfloor>)\<bar> \<le> (1::int)"
proof -
  from assms(2) have "V < E + 1" by simp
  then have "\<lfloor>V\<rfloor> \<le> \<lfloor>E + 1\<rfloor>" by (intro floor_mono) simp
  then have a: "\<lfloor>V\<rfloor> \<le> \<lfloor>E\<rfloor> + 1" by simp
  from assms(1) have "E - 1 \<le> V" by simp
  then have "\<lfloor>E - 1\<rfloor> \<le> \<lfloor>V\<rfloor>" by (rule floor_mono)
  then have b: "\<lfloor>E\<rfloor> - 1 \<le> \<lfloor>V\<rfloor>" by simp
  from a b show ?thesis by (rule clamp_close)
qed

lemma progress_close:
  assumes "0 \<le> e" and "e \<le> 2 ^ 63" and "1 \<le> d * 1000000" and "d * 1000000 \<le> 2 ^ 1000"
  shows "\<exists>p. progress_from_out_time e (Some (Finite d)) = Inr (Some p)
           \<and> \<bar>p - max 0 (min 100 \<lfloor>of_int e / (d * 1000000) * 100\<rfloor>)\<bar> \<le> 1"
proof -
  define c :: rat where "c = 1 / 2 ^ 53"
  note k = rel_consts [OF c_def]
  define D where "D = d * 1000000"
  from assms(3) have "0 < d * 1000000" by simp
  then have dpos: "0 < d" by (simp add: zero_less_mult_iff)
  have D1: "1 \<le> D" and D2: "D \<le> 2 ^ 1000" using assms(3,4) by (simp_all add: D_def)
  from D1 have Dpos: "0 < D" by simp
  from tiny_le_one D1 have Dn: "2 powi (- 1022) \<le> D" by simp
  have "(2::rat) ^ 1000 \<le> 2 ^ 1023" by (intro power_increasing) simp_all
  with D2 have Dm: "D \<le> 2 ^ 1023" by simp
  from round64_normal [OF Dn Dm] obtain T where
    T: "round64 D = Finite T" "D * (1 - c) \<le> T" "T \<le> D * (1 + c)"
    unfolding c_def by blast
  from Dpos k(1) have "0 < D * (1 - c)" by simp
  with T(2) have Tpos: "0 < T" by simp
  have total: "fmul (Finite d) (Finite 1000000) = Finite T"
    using T(1) by (simp add: fmul_def D_def)
  have g1: "\<not> fle (Finite d) (Finite 0)" using dpos by (simp add: fle_def)
  have g2: "\<not> fle (Finite T) (Finite 0)" using Tpos by (simp add: fle_def)
  show ?thesis
  proof (cases "e = 0")
    case True
    have z: "fmul (Finite 0) (Finite 100) = Finite 0" by (simp add: fmul_def round64_zero)
    have "progress_from_out_time 0 (Some (Finite d)) = Inr (Some 0)"
      using Tpos
      by (simp add: progress_from_out_time_def Let_def total g1 g2 float_of_int_def
            round64_zero fdiv_def z math_floor_def)
    with True show ?thesis by simp
  next
    case False
    define a :: rat where "a = of_int e"
    from False assms(1) have "1 \<le> e" by simp
    then have a1: "1 \<le> a" by (simp add: a_def)
    from assms(2) have "(of_int e :: rat) \<le> of_int (2 ^ 63)" by (simp only: of_int_le_iff)
    then have a2: "a \<le> 2 ^ 63" by (simp add: a_def)
    from a1 have apos: "0 \<le> a" by simp
    from tiny_le_one a1 have an: "2 powi (- 1022) \<le> a" by simp
    have "(2::rat) ^ 63 \<le> 2 ^ 1023" by (intro power_increasing) simp_all
    with a2 have am: "a \<le> 2 ^ 1023" by simp
    from round64_normal [OF an am] obtain X where
      X: "round64 a = Finite X" "a * (1 - c) \<le> X" "X \<le> a * (1 + c)"
      unfolding c_def by blast
    have fx: "float_of_int e = Inr (Finite X)"
      using X(1) by (simp add: float_of_int_def a_def)
    from k(1) have c1: "0 \<le> 1 - c" by simp
    from k(2) have c2: "0 \<le> 1 + c" by simp
    have c_half: "1 / 2 \<le> 1 - c" and c_two: "1 + c \<le> 2" by (simp_all add: c_def)
    from k(1,2) have h1pos: "0 \<le> (1 + c) / (1 - c)" by simp
    note q0 = interval_div [OF Dpos k(1) apos c1 X(2,3) T(2,3)]
    from q0 have q0l: "a / D * ((1 - c) / (1 + c)) \<le> X / T"
      and q0h: "X / T \<le> a / D * ((1 + c) / (1 - c))" by blast+
    from frac_le [OF apos a1 Dpos D2] have lo0: "1 / 2 ^ 1000 \<le> a / D" .
    have "(0::rat) \<le> 2 ^ 63" by simp
    from frac_le [OF this a2 zero_less_one D1] have hi0: "a / D \<le> 2 ^ 63" by simp
    have adpos: "0 \<le> a / D" by (rule order_trans [OF _ lo0]) simp
    have e1: "(1::rat) / 2 ^ 1001 = 1 / 2 ^ 1000 * (1 / 2)" by simp
    have m1: "1 / 2 ^ 1001 \<le> a / D * ((1 - c) / (1 + c))"
      unfolding e1 by (rule mult_mono [OF lo0 k(3) adpos]) simp
    from m1 q0l have ql: "1 / 2 ^ 1001 \<le> X / T" by (rule order_trans)
    have e2: "(2::rat) ^ 64 = 2 ^ 63 * 2" by simp
    have m2: "a / D * ((1 + c) / (1 - c)) \<le> 2 ^ 64"
      unfolding e2 by (rule mult_mono [OF hi0 k(4) _ h1pos]) simp
    from q0h m2 have qh: "X / T \<le> 2 ^ 64" by (rule order_trans)
    have xtpos: "0 \<le> X / T" by (rule order_trans [OF _ ql]) simp
    have "(2::rat) powi (- 1022) \<le> 2 powi (- 1001)" by (intro power_int_increasing) simp_all
    also have "\<dots> = 1 / 2 ^ 1001" by (simp add: power_int_minus field_simps)
    finally have t1: "(2::rat) powi (- 1022) \<le> 1 / 2 ^ 1001" .
    from t1 ql have qn: "2 powi (- 1022) \<le> X / T" by (rule order_trans)
    have "(2::rat) ^ 64 \<le> 2 ^ 1023" by (intro power_increasing) simp_all
    with qh have qm: "X / T \<le> 2 ^ 1023" by (rule order_trans)
    from round64_normal [OF qn qm] obtain Q where
      Q: "round64 (X / T) = Finite Q" "X / T * (1 - c) \<le> Q" "Q \<le> X / T * (1 + c)"
      unfolding c_def by blast
    have fq: "fdiv (Finite X) (Finite T) = Inr (Finite Q)"
      using Tpos Q(1) by (simp add: fdiv_def)
    note q1 = interval_mult [OF q0l q0h c1 c2 Q(2,3)]
    have e3: "(1::rat) / 2 ^ 1002 = 1 / 2 ^ 1001 * (1 / 2)" by simp
    have m3: "1 / 2 ^ 1002 \<le> X / T * (1 - c)"
      unfolding e3 by (rule mult_mono [OF ql c_half xtpos]) simp
    from m3 Q(2) have Ql: "1 / 2 ^ 1002 \<le> Q" by (rule order_trans)
    have e4: "(2::rat) ^ 65 = 2 ^ 64 * 2" by simp
    have m4: "X / T * (1 + c) \<le> 2 ^ 65"
      unfolding e4 by (rule mult_mono [OF qh c_two _ c2]) simp
    from Q(3) m4 have Qh: "Q \<le> 2 ^ 65" by (rule order_trans)
    have Qpos: "0 \<le> Q" by (rule order_trans [OF _ Ql]) simp
    have "(2::rat) powi (- 1022) \<le> 2 powi (- 1002)" by (intro power_int_increasing) simp_all
    also have "\<dots> = 1 / 2 ^ 1002" by (simp add: power_int_minus field_simps)
    finally have t2: "(2::rat) powi (- 1022) \<le> 1 / 2 ^ 1002" .
    from Qpos have "Q \<le> Q * 100" by simp
    with Ql have "1 / 2 ^ 1002 \<le> Q * 100" by (rule order_trans)
    with t2 have vn: "2 powi (- 1022) \<le> Q * 100" by (rule order_trans)
    have "(100::rat) \<le> 2 ^ 7" by simp
    from mult_mono [OF Qh this] have "Q * 100 \<le> 2 ^ 65 * 2 ^ 7" by simp
    also have "\<dots> = 2 ^ 72" by (simp only: power_add [symmetric]) simp
    also have "(2::rat) ^ 72 \<le> 2 ^ 1023" by (intro power_increasing) simp_all
    finally have vm: "Q * 100 \<le> 2 ^ 1023" .
    from round64_normal [OF vn vm] obtain V where
      V: "round64 (Q * 100) = Finite V" "Q * 100 * (1 - c) \<le> V" "V \<le> Q * 100 * (1 + c)"
      unfolding c_def by blast
    have fv: "fmul (Finite Q) (Finite 100) = Finite V"
      using V(1) by (simp add: fmul_def)
    have run: "progress_from_out_time e (Some (Finite d)) = Inr (Some (max 0 (min 100 \<lfloor>V\<rfloor>)))"
      by (simp add: progress_from_out_time_def Let_def total g1 g2 fx fq fv math_floor_def)
    define E where "E = a / D * 100"
    have Epos: "0 \<le> E" unfolding E_def by (rule mult_nonneg_nonneg [OF adpos]) simp
    have eqE: "\<And>L. E * L = a / D * L * 100" by (simp add: E_def)
    from q1 have q1l: "a / D * ((1 - c) / (1 + c) * (1 - c)) \<le> Q"
      and q1h: "Q \<le> a / D * ((1 + c) / (1 - c) * (1 + c))" by blast+
    have "E * ((1 - c) / (1 + c) * (1 - c)) \<le> Q * 100"
      and "Q * 100 \<le> E * ((1 + c) / (1 - c) * (1 + c))"
      unfolding eqE by (rule mult_right_mono [OF q1l], simp) (rule mult_right_mono [OF q1h], simp)
    note v1 = interval_mult [OF this c1 c2 V(2,3)]
    from v1 have v1l: "E * ((1 - c) / (1 + c) * (1 - c) * (1 - c)) \<le> V"
      and v1h: "V \<le> E * ((1 + c) / (1 - c) * (1 + c) * (1 + c))" by blast+
    have "E * (1 - 1 / 2 ^ 50) \<le> E * ((1 - c) / (1 + c) * (1 - c) * (1 - c))"
      by (rule mult_left_mono [OF k(5) Epos])
    from this v1l have Vl: "E * (1 - 1 / 2 ^ 50) \<le> V" by (rule order_trans)
    have "E * ((1 + c) / (1 - c) * (1 + c) * (1 + c)) \<le> E * (1 + 1 / 2 ^ 50)"
      by (rule mult_left_mono [OF k(6) Epos])
    with v1h have Vh: "V \<le> E * (1 + 1 / 2 ^ 50)" by (rule order_trans)
    have close: "\<bar>max 0 (min 100 \<lfloor>V\<rfloor>) - max 0 (min 100 \<lfloor>E\<rfloor>)\<bar> \<le> 1"
    proof (cases "E \<le> 2 ^ 49")
      case True
      then have "E * (1 / 2 ^ 50) \<le> 2 ^ 49 * (1 / 2 ^ 50)" by (intro mult_right_mono) simp_all
      then have h: "E * (1 / 2 ^ 50) \<le> 1 / 2" by simp
      from Vl have "E - E * (1 / 2 ^ 50) \<le> V" by (simp only: right_diff_distrib mult_1_right)
      with h have l: "E - 1 / 2 \<le> V" by linarith
      from Vh have "V \<le> E + E * (1 / 2 ^ 50)" by (simp only: distrib_left mult_1_right)
      with h have u: "V \<le> E + 1 / 2" by linarith
      from l u show ?thesis by (rule floor_close)
    next
      case False
      then have big: "2 ^ 49 \<le> E" by simp
      then have "2 ^ 49 * (1 - 1 / 2 ^ 50) \<le> E * (1 - 1 / 2 ^ 50)"
        by (intro mult_right_mono) simp_all
      from this Vl have "2 ^ 49 * (1 - 1 / 2 ^ 50) \<le> V" by (rule order_trans)
      then have "of_int 100 \<le> V" by simp
      then have v: "100 \<le> \<lfloor>V\<rfloor>" by (simp only: le_floor_iff)
      from big have "of_int 100 \<le> E" by simp
      then have "100 \<le> \<lfloor>E\<rfloor>" by (simp only: le_floor_iff)
      with v have "max 0 (min 100 \<lfloor>V\<rfloor>) = 100" and "max 0 (min 100 \<lfloor>E\<rfloor>) = 100"
        by (simp_all only: max_def min_def) simp_all
      then show ?thesis by simp
    qed
    have "of_int e / (d * 1000000) * 100 = E" by (simp add: E_def a_def D_def)
    with run close show ?thesis by simp
  qed
qed

subsection \<open>The progress mapping\<close>

lemma emitted_items_append: "emitted_items (xs @ ys) = emitted_items xs @ emitted_items ys"
  by (induction xs rule: emitted_items.induct) simp_all

lemma emitted_progress_append:
  "emitted_progress (xs @ ys) = emitted_progress xs @ emitted_progress ys"
  by (simp add: emitted_progress_def emitted_items_append)

lemma parse_line_out_time_500000: "parse_line ''out_time_ms=500000'' = OutTime 500000"
  by (simp add: parse_line_def text_defs int_defs)

lemma parse_line_out_time_1000000: "parse_line ''out_time_ms=1000000'' = OutTime 1000000"
  by (simp add: parse_line_def text_defs int_defs)

lemma parse_line_progress_end: "parse_line ''progress=end'' = ProgressEnd"
  by (simp add: parse_line_def text_defs)

lemma handle_line_end:
  "parse_line raw = ProgressEnd \<Longrightarrow>
     handle_line cb m raw r = emit_item cb (r\<lparr>item := (item r)\<lparr>progress := Some 100\<rparr>\<rparr>)"
  by (simp add: handle_line_def)

lemma sample_scenario:
  "emitted_progress (effects (fst (read_stdout True p (m\<lparr>duration := Some (Finite 10)\<rparr>)
       [(False, ''out_time_ms=500000''), (False, ''out_time_ms=1000000''),
        (False, ''progress=end'')]
       \<lparr>item = it\<lparr>progress := Some 0\<rparr>, effects = [], raised = None\<rparr>)))
     = [Some 5, Some 10, Some 100]"
  by (simp add: handle_line_def parse_line_out_time_500000 parse_line_out_time_1000000
        parse_line_progress_end progress_500000 progress_1000000 emit_item_def
        emitted_progress_def)

text \<open>
  Claim C1, as the code has it. The quotient is evaluated in binary64, each operation
  rounded to the nearest representable value, so the percentage is the floor of the
  rounded value, which can lie on the other side of an integer than the exact one. For an
  elapsed time from 0 to \<open>2^63\<close> microseconds and a duration from one microsecond to
  \<open>2^1000\<close> microseconds, \<open>progress_from_out_time\<close> returns a percentage from 0 to 100
  that differs from \<open>exact_percent\<close>, the clamped floor of
  elapsed / (duration * 1000000) * 100 in exact arithmetic, by at most 1. Whatever the
  arguments, a percentage that it returns lies between 0 and 100, and for a positive
  duration (from \<open>2^-1074\<close>, the least positive value of binary64, on) it never
  answers \<open>None\<close>: it returns a percentage or raises. The end-of-stream marker sets
  the progress to 100 and reports it. For the lines \<open>out_time_ms=500000\<close>,
  \<open>out_time_ms=1000000\<close> and \<open>progress=end\<close> of a 10 second input the loop reports
  5, 10, 100.
\<close>

theorem progress_mapping_binary64:
  assumes "0 \<le> elapsed_us" and "elapsed_us \<le> 2 ^ 63"
    and "1 \<le> d * 1000000" and "d * 1000000 \<le> 2 ^ 1000"
  shows "(\<exists>pc. progress_from_out_time elapsed_us (Some (Finite d)) = Inr (Some pc)
              \<and> 0 \<le> pc \<and> pc \<le> 100 \<and> \<bar>pc - exact_percent d elapsed_us\<bar> \<le> 1)
       \<and> (\<forall>e dur pc. progress_from_out_time e dur = Inr (Some pc) \<longrightarrow> 0 \<le> pc \<and> pc \<le> 100)
       \<and> (\<forall>e d'. 2 powi (- 1074) \<le> d' \<longrightarrow> progress_from_out_time e (Some (Finite d')) \<noteq> Inr None)
       \<and> (parse_line raw = ProgressEnd \<longrightarrow>
            progress (item (handle_line True m raw r)) = Some 100
            \<and> emitted_progress (effects (handle_line True m raw r))
                = emitted_progress (effects r) @ [Some 100])
       \<and> emitted_progress (effects (fst (read_stdout True p (m\<lparr>duration := Some (Finite 10)\<rparr>)
             [(False, ''out_time_ms=500000''), (False, ''out_time_ms=1000000''),
              (False, ''progress=end'')]
             \<lparr>item = it\<lparr>progress := Some 0\<rparr>, effects = [], raised = None\<rparr>)))
           = [Some 5, Some 10, Some 100]"
proof -
  from progress_close [OF assms] obtain pc where
    pc: "progress_from_out_time elapsed_us (Some (Finite d)) = Inr (Some pc)"
      "\<bar>pc - exact_percent d elapsed_us\<bar> \<le> 1"
    unfolding exact_percent_def by blast
  from progress_from_out_time_range [OF pc(1)] pc
  have a: "\<exists>pc. progress_from_out_time elapsed_us (Some (Finite d)) = Inr (Some pc)
              \<and> 0 \<le> pc \<and> pc \<le> 100 \<and> \<bar>pc - exact_percent d elapsed_us\<bar> \<le> 1"
    by blast
  have b: "\<forall>e dur pc. progress_from_out_time e dur = Inr (Some pc) \<longrightarrow> 0 \<le> pc \<and> pc \<le> 100"
    using progress_from_out_time_range by blast
  have c: "parse_line raw = ProgressEnd \<longrightarrow>
            progress (item (handle_line True m raw r)) = Some 100
            \<and> emitted_progress (effects (handle_line True m raw r))
                = emitted_progress (effects r) @ [Some 100]"
    by (simp add: handle_line_end emit_item_def emitted_progress_append)
       (simp add: emitted_progress_def)
  have n: "\<forall>e d'. 2 powi (- 1074) \<le> d' \<longrightarrow> progress_from_out_time e (Some (Finite d')) \<noteq> Inr None"
    using progress_known_not_none by blast
  from a b n c sample_scenario show ?thesis by blast
qed

theorem progress_mapping_binary64_witness:
  "\<exists>pc. progress_from_out_time 500000 (Some (Finite 10)) = Inr (Some pc)
         \<and> 0 \<le> pc \<and> pc \<le> 100 \<and> \<bar>pc - exact_percent 10 500000\<bar> \<le> 1"
  using progress_mapping_binary64 [of 500000 10] by simp

text \<open>
  The claim as it was stated fails: for 2900000 microseconds of a 10 second input the
  quotient 0.29 is rounded below its exact value, its product with 100 is rounded to
  the representable value just below 29, and the function returns 28 where the formula
  in exact arithmetic gives 29.
\<close>

theorem progress_floor_below_formula:
  "progress_from_out_time 2900000 (Some (Finite 10)) = Inr (Some 28)
   \<and> exact_percent 10 2900000 = 29"
  by (simp add: progress_2900000 exact_percent_def)

subsection \<open>Terminating a process\<close>

text \<open>
  Claim C8, as the code has it. \<open>terminate_process\<close> asks for graceful termination
  first, waits with the fixed timeout 3 unless that request raised, and calls \<open>kill\<close>
  exactly when the wait timed out. Not every failure is swallowed: the handlers catch an
  \<^verbatim>\<open>OSError\<close> of \<open>terminate\<close> and of \<open>kill\<close> and the timeout of \<open>wait\<close>, and
  nothing else. No exception leaves the function exactly when each call that is made
  returns or raises the one class that its handler names; any other exception leaves it,
  and it is the exception of the last call made.
\<close>

theorem terminate_process_escalation:
  "(fst (terminate_process p) = None \<longleftrightarrow>
      (on_terminate p = Some OSError
       \<or> (on_terminate p = None
           \<and> (on_wait p = None
               \<or> (on_wait p = Some TimeoutExpired \<and> (on_kill p = None \<or> on_kill p = Some OSError))))))
   \<and> (\<forall>e. fst (terminate_process p) = Some e \<longrightarrow>
         (on_terminate p = Some e \<and> e \<noteq> OSError)
         \<or> (on_terminate p = None \<and> on_wait p = Some e \<and> e \<noteq> TimeoutExpired)
         \<or> (on_terminate p = None \<and> on_wait p = Some TimeoutExpired \<and> on_kill p = Some e
             \<and> e \<noteq> OSError))
   \<and> take 1 (snd (terminate_process p)) = [Terminate]
   \<and> snd (terminate_process p) \<in> {[Terminate], [Terminate, Wait 3], [Terminate, Wait 3, Kill]}
   \<and> (Kill \<in> set (snd (terminate_process p))
        \<longleftrightarrow> on_terminate p = None \<and> on_wait p = Some TimeoutExpired)
   \<and> (Wait 3 \<in> set (snd (terminate_process p)) \<longleftrightarrow> on_terminate p = None)"
  by (auto simp: terminate_process_def split: option.splits if_splits)

theorem terminate_process_escalation_witness:
  "terminate_process \<lparr>on_terminate = None, on_wait = Some TimeoutExpired, on_kill = Some OSError\<rparr>
     = (None, [Terminate, Wait 3, Kill])
   \<and> fst (terminate_process \<lparr>on_terminate = None, on_wait = Some TimeoutExpired,
                              on_kill = Some OSError\<rparr>) = None"
  using terminate_process_escalation
    [of "\<lparr>on_terminate = None, on_wait = Some TimeoutExpired, on_kill = Some OSError\<rparr>"]
  by (simp add: terminate_process_def)

text \<open>
  The claim as it was stated fails: when \<open>wait\<close> raises an \<^verbatim>\<open>OSError\<close>, which the
  handler around it does not name, the exception leaves \<open>terminate_process\<close>, after
  the calls \<open>terminate\<close> and \<open>wait\<close>.
\<close>

theorem wait_error_escapes:
  "terminate_process \<lparr>on_terminate = None, on_wait = Some OSError, on_kill = None\<rparr>
     = (Some OSError, [Terminate, Wait 3])"
  by (simp add: terminate_process_def)

subsection \<open>Waiting for the batch\<close>

lemma wait_returns: "wait h \<noteq> None \<longleftrightarrow> \<not> is_running h"
  by (simp add: wait_def)



subsection \<open>Cancelling the batch\<close>

lemma terminate_process_first: "\<exists>cs. snd (terminate_process p) = Terminate # cs"
  by (simp add: terminate_process_def split: option.splits)

lemma terminate_all_sent:
  "fst (terminate_all ps) = None \<Longrightarrow> (k, p) \<in> set ps \<Longrightarrow> (k, Terminate) \<in> set (snd (terminate_all ps))"
proof (induction ps)
  case Nil
  then show ?case by simp
next
  case (Cons kp ps)
  obtain k' p' where kp: "kp = (k', p')" by (cases kp)
  obtain e cs where tp: "terminate_process p' = (e, cs)" by (cases "terminate_process p'")
  obtain e' rest where ta: "terminate_all ps = (e', rest)" by (cases "terminate_all ps")
  from Cons.prems(1) kp tp ta have e: "e = None" and e': "e' = None"
    by (auto split: option.splits)
  from terminate_process_first [of p'] tp obtain cs' where cs: "cs = Terminate # cs'" by auto
  show ?case
  proof (cases "(k, p) = kp")
    case True
    with kp tp ta e cs show ?thesis by simp
  next
    case False
    with Cons.prems(2) have "(k, p) \<in> set ps" by simp
    with Cons.IH ta e' have "(k, Terminate) \<in> set rest" by simp
    with kp tp ta e show ?thesis by simp
  qed
qed

lemma swept_not_queued: "status (swept i) \<noteq> STATUS_QUEUED"
  by (simp add: swept_def mark_canceled_def)

lemma swept_idem: "swept (swept i) = swept i"
  by (simp add: swept_def mark_canceled_def)

lemma cancel_returned:
  assumes "cancel h = (None, h')"
  shows "fst (terminate_all (running_processes h)) = None"
    and "h' = mark_queued_canceled
                (h\<lparr>cancel_event := True,
                   proc_calls := proc_calls h @ snd (terminate_all (running_processes h))\<rparr>)"
  using assms by (auto simp: cancel_def Let_def split: option.splits)

lemma items_mark_queued_canceled: "items (mark_queued_canceled h) = map swept (items h)"
  by (simp add: mark_queued_canceled_def swept_def Let_def)

text \<open>
  Claim C2. When \<open>cancel\<close> has returned, the cancellation flag is set and no item is
  \<open>STATUS_QUEUED\<close>: each item that was queued is now \<open>STATUS_CANCELED\<close> with the message
  \<open>canceled\<close> and, when a callback is registered, has been handed to it; every other item
  is as it was. Every process in the registry has received a \<open>terminate\<close> call. A
  second \<open>cancel\<close> returns as well and leaves all items as they are.
\<close>

theorem cancel_sweeps_queue:
  assumes "cancel h = (None, h')"
  shows "cancel_event h'
       \<and> (\<forall>i \<in> set (items h'). status i \<noteq> STATUS_QUEUED)
       \<and> length (items h') = length (items h)
       \<and> (\<forall>k < length (items h).
            (status (items h ! k) = STATUS_QUEUED \<longrightarrow>
               status (items h' ! k) = STATUS_CANCELED
               \<and> items h' ! k = mark_canceled (items h ! k)
               \<and> (on_item_update h \<longrightarrow> items h' ! k \<in> set (reported h')))
            \<and> (status (items h ! k) \<noteq> STATUS_QUEUED \<longrightarrow> items h' ! k = items h ! k))
       \<and> (\<forall>kp \<in> set (running_processes h). (fst kp, Terminate) \<in> set (proc_calls h'))
       \<and> fst (cancel h') = None
       \<and> items (snd (cancel h')) = items h'"
proof -
  note r = cancel_returned [OF assms]
  let ?h2 = "h\<lparr>cancel_event := True,
               proc_calls := proc_calls h @ snd (terminate_all (running_processes h))\<rparr>"
  have it: "items h' = map swept (items h)"
    by (simp add: r(2) items_mark_queued_canceled)
  have ce: "cancel_event h'"
    by (simp add: r(2) mark_queued_canceled_def Let_def)
  have nq: "\<forall>i \<in> set (items h'). status i \<noteq> STATUS_QUEUED"
    by (auto simp: it swept_not_queued)
  have rep: "on_item_update h \<Longrightarrow>
      reported h' = reported h @ map mark_canceled (filter (\<lambda>i. status i = STATUS_QUEUED) (items h))"
    by (simp add: r(2) mark_queued_canceled_def Let_def)
  have per: "\<forall>k < length (items h).
            (status (items h ! k) = STATUS_QUEUED \<longrightarrow>
               status (items h' ! k) = STATUS_CANCELED
               \<and> items h' ! k = mark_canceled (items h ! k)
               \<and> (on_item_update h \<longrightarrow> items h' ! k \<in> set (reported h')))
            \<and> (status (items h ! k) \<noteq> STATUS_QUEUED \<longrightarrow> items h' ! k = items h ! k)"
  proof (intro allI impI conjI)
    fix k assume k: "k < length (items h)" and q: "status (items h ! k) = STATUS_QUEUED"
    show "items h' ! k = mark_canceled (items h ! k)" using k q by (simp add: it swept_def)
    then show "status (items h' ! k) = STATUS_CANCELED" by (simp add: mark_canceled_def)
    assume cb: "on_item_update h"
    have "items h ! k \<in> set (filter (\<lambda>i. status i = STATUS_QUEUED) (items h))"
      using k q by simp
    then show "items h' ! k \<in> set (reported h')"
      using k q by (simp add: rep [OF cb] it swept_def)
  next
    fix k assume "k < length (items h)" and "status (items h ! k) \<noteq> STATUS_QUEUED"
    then show "items h' ! k = items h ! k" by (simp add: it swept_def)
  qed
  have pc: "proc_calls h' = proc_calls h @ snd (terminate_all (running_processes h))"
    by (simp add: r(2) mark_queued_canceled_def Let_def)
  have sent: "\<forall>kp \<in> set (running_processes h). (fst kp, Terminate) \<in> set (proc_calls h')"
  proof
    fix kp assume "kp \<in> set (running_processes h)"
    then have "(fst kp, snd kp) \<in> set (running_processes h)" by simp
    from terminate_all_sent [OF r(1) this] show "(fst kp, Terminate) \<in> set (proc_calls h')"
      by (simp add: pc)
  qed
  have rp: "running_processes h' = running_processes h"
    by (simp add: r(2) mark_queued_canceled_def Let_def)
  have again: "fst (cancel h') = None"
    using r(1) by (simp add: cancel_def Let_def rp split: option.splits)
  have same: "items (snd (cancel h')) = items h'"
    using r(1)
    by (simp add: cancel_def Let_def rp items_mark_queued_canceled it swept_idem
          split: option.splits)
  have len: "length (items h') = length (items h)"
    by (simp add: it)
  from ce nq len per sent again same show ?thesis by blast
qed

theorem cancel_sweeps_queue_witness:
  "\<exists>h'. cancel (sample_handle [sample_item 1 STATUS_QUEUED, sample_item 2 STATUS_RUNNING]
                  [(2, stubborn_process)]) = (None, h')
        \<and> map status (items h') = [STATUS_CANCELED, STATUS_RUNNING]
        \<and> (2, Terminate) \<in> set (proc_calls h')
        \<and> items h' ! 0 \<in> set (reported h')
        \<and> items (snd (cancel h')) = items h'"
proof -
  let ?h = "sample_handle [sample_item 1 STATUS_QUEUED, sample_item 2 STATUS_RUNNING]
              [(2, stubborn_process)]"
  obtain h' where c: "cancel ?h = (None, h')"
    by (simp add: cancel_def sample_handle_def stubborn_process_def terminate_process_def)
  note t = cancel_sweeps_queue [OF c]
  have l: "length (items ?h) = 2" by (simp add: sample_handle_def)
  from t have len: "length (items h') = 2" by (simp add: l)
  from t have per: "\<forall>k < 2.
            (status (items ?h ! k) = STATUS_QUEUED \<longrightarrow>
               status (items h' ! k) = STATUS_CANCELED
               \<and> items h' ! k = mark_canceled (items ?h ! k)
               \<and> (on_item_update ?h \<longrightarrow> items h' ! k \<in> set (reported h')))
            \<and> (status (items ?h ! k) \<noteq> STATUS_QUEUED \<longrightarrow> items h' ! k = items ?h ! k)"
    unfolding l by blast
  have q0: "status (items ?h ! 0) = STATUS_QUEUED" and cb: "on_item_update ?h"
    and q1: "status (items ?h ! 1) = STATUS_RUNNING"
    by (simp_all add: sample_handle_def sample_item_def new_item_def)
  have z: "(0::nat) < 2" "(1::nat) < 2" by simp_all
  from per z(1) q0 cb have s0: "status (items h' ! 0) = STATUS_CANCELED"
    and r0: "items h' ! 0 \<in> set (reported h')"
    by blast+
  from per z(2) q1 have "items h' ! 1 = items ?h ! 1"
    by (metis Status.distinct(1))
  with q1 have s1: "status (items h' ! 1) = STATUS_RUNNING" by simp
  from len s0 s1 have st: "map status (items h') = [STATUS_CANCELED, STATUS_RUNNING]"
    by (simp add: list_eq_iff_nth_eq nth_Cons' All_less_Suc numeral_2_eq_2)
  from t have "\<forall>kp \<in> set (running_processes ?h). (fst kp, Terminate) \<in> set (proc_calls h')"
    by blast
  then have sent: "(2, Terminate) \<in> set (proc_calls h')"
    by (simp add: sample_handle_def)
  from t have "items (snd (cancel h')) = items h'" by blast
  with c st sent r0 show ?thesis by (intro exI [of _ h']) simp
qed

subsection \<open>Retrying failed items\<close>

lemma retry_items_eq:
  "retry_items k xs =
     (map retried xs,
      map (\<lambda>j. j + k) (filter (\<lambda>j. status (xs ! j) = STATUS_FAILED) [0..<length xs]))"
proof (induction xs arbitrary: k)
  case Nil
  show ?case by simp
next
  case (Cons x xs)
  have up: "[0..<length (x # xs)] = 0 # map Suc [0..<length xs]"
    by (simp add: upt_conv_Cons map_Suc_upt del: upt_Suc)
  show ?case
    unfolding up
    by (simp add: Cons.IH [of "Suc k"] filter_map comp_def retried_def)
qed

text \<open>
  Claim C3. \<open>retry_failed\<close> keeps every item that is not \<open>STATUS_FAILED\<close> exactly as it
  is, in all its fields. Each failed item becomes \<open>STATUS_QUEUED\<close> with progress 0 and
  an empty error text, and its position is appended to the work queue, in the order of
  \<open>items\<close>.
\<close>

theorem retry_failed_frame:
  "length (items (retry_failed h)) = length (items h)
   \<and> (\<forall>k < length (items h).
        (status (items h ! k) \<noteq> STATUS_FAILED \<longrightarrow> items (retry_failed h) ! k = items h ! k)
        \<and> (status (items h ! k) = STATUS_FAILED \<longrightarrow>
             items (retry_failed h) ! k
               = (items h ! k)\<lparr>status := STATUS_QUEUED, progress := Some 0, error := []\<rparr>
             \<and> k \<in> set (work_queue (retry_failed h))))
   \<and> work_queue (retry_failed h)
       = work_queue h @ filter (\<lambda>k. status (items h ! k) = STATUS_FAILED) [0..<length (items h)]"
proof -
  have i: "items (retry_failed h) = map retried (items h)"
    by (simp add: retry_failed_def retry_items_eq)
  have q: "work_queue (retry_failed h)
       = work_queue h @ filter (\<lambda>k. status (items h ! k) = STATUS_FAILED) [0..<length (items h)]"
    by (simp add: retry_failed_def retry_items_eq)
  show ?thesis
    unfolding q by (simp add: i retried_def)
qed

theorem retry_failed_frame_witness:
  "items (retry_failed (sample_handle
       [(sample_item 1 STATUS_FAILED)\<lparr>progress := Some 40, error := ''boom''\<rparr>,
        (sample_item 2 STATUS_COMPLETED)\<lparr>progress := Some 100\<rparr>] []))
     = [sample_item 1 STATUS_QUEUED, (sample_item 2 STATUS_COMPLETED)\<lparr>progress := Some 100\<rparr>]
   \<and> work_queue (retry_failed (sample_handle
       [(sample_item 1 STATUS_FAILED)\<lparr>progress := Some 40, error := ''boom''\<rparr>,
        (sample_item 2 STATUS_COMPLETED)\<lparr>progress := Some 100\<rparr>] [])) = [0]"
proof -
  let ?h = "sample_handle
       [(sample_item 1 STATUS_FAILED)\<lparr>progress := Some 40, error := ''boom''\<rparr>,
        (sample_item 2 STATUS_COMPLETED)\<lparr>progress := Some 100\<rparr>] []"
  have l: "length (items ?h) = 2" by (simp add: sample_handle_def)
  from retry_failed_frame [of ?h]
  have len: "length (items (retry_failed ?h)) = 2"
    and per: "\<forall>k < 2.
        (status (items ?h ! k) \<noteq> STATUS_FAILED \<longrightarrow> items (retry_failed ?h) ! k = items ?h ! k)
        \<and> (status (items ?h ! k) = STATUS_FAILED \<longrightarrow>
             items (retry_failed ?h) ! k
               = (items ?h ! k)\<lparr>status := STATUS_QUEUED, progress := Some 0, error := []\<rparr>
             \<and> k \<in> set (work_queue (retry_failed ?h)))"
    and q: "work_queue (retry_failed ?h)
       = work_queue ?h @ filter (\<lambda>k. status (items ?h ! k) = STATUS_FAILED) [0..<length (items ?h)]"
    unfolding l by blast+
  from spec [OF per, of 0] have p0: "items (retry_failed ?h) ! 0 = sample_item 1 STATUS_QUEUED"
    by (simp add: sample_handle_def sample_item_def new_item_def)
  from spec [OF per, of 1] have p1: "items (retry_failed ?h) ! 1 = (sample_item 2 STATUS_COMPLETED)\<lparr>progress := Some 100\<rparr>"
    by (simp add: sample_handle_def sample_item_def new_item_def)
  from len p0 p1 have "items (retry_failed ?h)
      = [sample_item 1 STATUS_QUEUED, (sample_item 2 STATUS_COMPLETED)\<lparr>progress := Some 100\<rparr>]"
    by (simp add: list_eq_iff_nth_eq nth_Cons' All_less_Suc numeral_2_eq_2)
  moreover from q have "work_queue (retry_failed ?h) = [0]"
    by (simp add: sample_handle_def sample_item_def new_item_def upt_conv_Cons)
  ultimately show ?thesis by simp
qed

subsection \<open>One item through the worker\<close>

lemma handle_line_item:
  "(item (handle_line cb m raw r))\<lparr>progress := x\<rparr> = (item r)\<lparr>progress := x\<rparr>"
  by (simp add: handle_line_def emit_item_def split: progress_line.splits sum.splits)

lemma read_stdout_item:
  "(item (fst (read_stdout cb p m lines r)))\<lparr>progress := x\<rparr> = (item r)\<lparr>progress := x\<rparr>"
proof (induction lines arbitrary: r)
  case Nil
  show ?case by simp
next
  case (Cons l lines)
  obtain c raw where l: "l = (c, raw)" by (cases l)
  show ?case
    using Cons.IH [of "handle_line cb m raw r"]
    by (simp add: l handle_line_item split: prod.splits)
qed

lemma read_stdout_status: "status (item (fst (read_stdout cb p m lines r))) = status (item r)"
proof -
  have "status ((item (fst (read_stdout cb p m lines r)))\<lparr>progress := None\<rparr>)
          = status ((item r)\<lparr>progress := None\<rparr>)"
    by (simp only: read_stdout_item)
  then show ?thesis by simp
qed

lemma sample_parse_path: "parse_path ''out/clip.mp4'' = [''out'', ''clip.mp4'']"
  by (simp add: parse_path_def)

lemma sample_temp_path:
  "temp_output_path [([''out'', ''clip.partial.mp4''], None)] (parse_path ''out/clip.mp4'')
     = Inr [''out'', ''clip.partial1.mp4'']"
  by (simp add: sample_parse_path temp_output_path_def has_name_def temp_first_def
        temp_candidate_def temp_path_loop.simps path_exists_def with_name_def path_stem_def
        path_suffix_def path_name_def rfind_dot_def str_nat_small digit_char_def)

lemmas sample_defs = sample_env_def sample_config_def sample_item_def new_item_def
  stubborn_process_def MediaInfo_default_def sample_temp_path

text \<open>
  Claim C10, as the code has it. With \<open>dry_run\<close> set, an item that a worker takes up
  while the batch is not cancelled, whose output directory can be made and for which the
  temporary output path can be computed (the output path has a file name, and the checks
  for existing temporary files do not fail), is reported as \<open>STATUS_RUNNING\<close> and then
  as \<open>STATUS_SKIPPED\<close> with the message \<open>dry-run\<close>, and is logged. Apart from making
  the output directory the worker does nothing else: it does not probe, starts no process
  and publishes no file.
\<close>

theorem dry_run_skips:
  assumes "dry_run cfg" and "\<not> cancel_at_entry env" and "mkdir_raises env = None"
    and "temp_output_path (fs_entries env) (parse_path (output_path it)) = Inr temp_output"
  shows "status (item (process_item cb cfg env it)) = STATUS_SKIPPED
       \<and> message (item (process_item cb cfg env it)) = ''dry-run''
       \<and> raised (process_item cb cfg env it) = None
       \<and> effects (process_item cb cfg env it)
           = (if cb then [EmitItem (it\<lparr>status := STATUS_RUNNING, progress := Some 0\<rparr>)] else [])
             @ [Mkdir (output_path it)]
             @ (if cb then [EmitItem (item (process_item cb cfg env it))] else [])
             @ [LogItem (item (process_item cb cfg env it))]
       \<and> item (process_item cb cfg env it)
           = it\<lparr>status := STATUS_SKIPPED, progress := Some 0, message := ''dry-run'',
                input_bytes := stat_input env\<rparr>"
  using assms
  by (simp add: process_item_def Let_def emit_item_def log_item_def perform_def set_item_def)

theorem dry_run_skips_witness:
  "map status (emitted_items (effects
      (process_item True (sample_config\<lparr>dry_run := True\<rparr>) sample_env (sample_item 1 STATUS_QUEUED))))
     = [STATUS_RUNNING, STATUS_SKIPPED]
   \<and> message (item
      (process_item True (sample_config\<lparr>dry_run := True\<rparr>) sample_env (sample_item 1 STATUS_QUEUED)))
     = ''dry-run''"
  using dry_run_skips [of "sample_config\<lparr>dry_run := True\<rparr>" sample_env "sample_item 1 STATUS_QUEUED"
      "[''out'', ''clip.partial1.mp4'']" True]
  by (simp add: sample_defs)

text \<open>
  The claim as it was stated fails, in two ways. With no output directory configured the
  scan gives each job the empty output path, and \<open>start_batch\<close> accepts such a
  configuration. For such a job the temporary output path, which is computed before the
  dry-run test, cannot be formed: the \<^verbatim>\<open>ValueError\<close> leaves \<open>process_item\<close>, the
  job stays \<open>STATUS_RUNNING\<close>, and nothing is reported or logged after the first
  report. And a job that the worker takes up when the cancellation flag is set becomes
  \<open>STATUS_CANCELED\<close>: it is reported once, never as skipped, and is not logged.
\<close>

theorem dry_run_not_skipped:
  "scan_inputs (sample_config\<lparr>output_dir := None, dry_run := True\<rparr>) sample_fs (\<lambda>q. None)
       [([], [''clip.mp4''])]
     = Some [new_item 1 ''in/clip.mp4'' [] STATUS_QUEUED ''output not set'' None]
   \<and> process_item True (sample_config\<lparr>output_dir := None, dry_run := True\<rparr>) sample_env
        (new_item 1 ''in/clip.mp4'' [] STATUS_QUEUED ''output not set'' None)
       = \<lparr>item = new_item 1 ''in/clip.mp4'' [] STATUS_RUNNING ''output not set'' None,
          effects = [EmitItem (new_item 1 ''in/clip.mp4'' [] STATUS_RUNNING ''output not set'' None),
                     Mkdir []],
          raised = Some ValueError\<rparr>
   \<and> process_item True (sample_config\<lparr>dry_run := True\<rparr>) (sample_env\<lparr>cancel_at_entry := True\<rparr>)
        (sample_item 1 STATUS_QUEUED)
       = \<lparr>item = sample_item 1 STATUS_CANCELED,
          effects = [EmitItem (sample_item 1 STATUS_CANCELED)],
          raised = None\<rparr>"
proof -
  have s: "scan_inputs (sample_config\<lparr>output_dir := None, dry_run := True\<rparr>) sample_fs (\<lambda>q. None)
       [([], [''clip.mp4''])]
     = Some [new_item 1 ''in/clip.mp4'' [] STATUS_QUEUED ''output not set'' None]"
    by (simp add: scan_inputs_def plan_output_def sample_config_def path_suffix_def path_name_def
          rfind_dot_def lower_def lower_char_def str_path_def)
  have t: "\<And>fs. temp_output_path fs (parse_path []) = Inl ValueError"
    by (simp add: temp_output_path_def parse_path_def has_name_def)
  have p: "process_item True (sample_config\<lparr>output_dir := None, dry_run := True\<rparr>) sample_env
        (new_item 1 ''in/clip.mp4'' [] STATUS_QUEUED ''output not set'' None)
       = \<lparr>item = new_item 1 ''in/clip.mp4'' [] STATUS_RUNNING ''output not set'' None,
          effects = [EmitItem (new_item 1 ''in/clip.mp4'' [] STATUS_RUNNING ''output not set'' None),
                     Mkdir []],
          raised = Some ValueError\<rparr>"
    by (simp add: process_item_def Let_def new_item_def t emit_item_def perform_def
          sample_env_def)
  have c: "process_item True (sample_config\<lparr>dry_run := True\<rparr>) (sample_env\<lparr>cancel_at_entry := True\<rparr>)
        (sample_item 1 STATUS_QUEUED)
       = \<lparr>item = sample_item 1 STATUS_CANCELED,
          effects = [EmitItem (sample_item 1 STATUS_CANCELED)],
          raised = None\<rparr>"
    by (simp add: process_item_def emit_item_def sample_env_def sample_item_def new_item_def)
  from s p c show ?thesis by simp
qed

subsection \<open>Failure texts\<close>

lemma finish_item_failed:
  "returncode env \<noteq> 0 \<Longrightarrow>
     status (item (finish_item cb cfg env t r)) = STATUS_FAILED
     \<and> error (item (finish_item cb cfg env t r)) = failure_text (stderr_lines env)"
  by (simp add: finish_item_def Let_def set_item_def perform_def emit_item_def log_item_def)

lemma finish_item_raised: "raised (finish_item cb cfg env t r) = raised r"
  by (simp add: finish_item_def Let_def set_item_def perform_def emit_item_def log_item_def
        split: option.splits)

lemma handle_line_quiet:
  assumes "\<forall>x. parse_line raw = OutTime x \<longrightarrow> (\<exists>p. progress_from_out_time x (duration m) = Inr p)"
  shows "raised (handle_line cb m raw r) = raised r"
proof (cases "parse_line raw")
  case (OutTime x)
  with assms obtain p where "progress_from_out_time x (duration m) = Inr p" by blast
  with OutTime show ?thesis by (simp add: handle_line_def emit_item_def)
qed (simp_all add: handle_line_def emit_item_def)

lemma read_stdout_quiet:
  assumes "\<forall>l \<in> set lines. \<not> fst l
             \<and> (\<forall>x. parse_line (snd l) = OutTime x
                    \<longrightarrow> (\<exists>p. progress_from_out_time x (duration m) = Inr p))"
  shows "snd (read_stdout cb p m lines r) = False
       \<and> raised (fst (read_stdout cb p m lines r)) = raised r"
  using assms
proof (induction lines arbitrary: r)
  case Nil
  show ?case by simp
next
  case (Cons l lines)
  obtain c raw where l: "l = (c, raw)" by (cases l)
  from Cons.prems l have c: "\<not> c"
    and q: "\<forall>x. parse_line raw = OutTime x
              \<longrightarrow> (\<exists>p. progress_from_out_time x (duration m) = Inr p)"
    by simp_all
  from Cons.prems have rest: "\<forall>l \<in> set lines. \<not> fst l
             \<and> (\<forall>x. parse_line (snd l) = OutTime x
                    \<longrightarrow> (\<exists>p. progress_from_out_time x (duration m) = Inr p))"
    by simp
  from Cons.IH [OF rest, of "handle_line cb m raw r"] handle_line_quiet [OF q, of cb r]
  show ?case by (simp add: l c)
qed

lemma encode_item_failed:
  assumes "popen_raises env = None"
    and "\<forall>l \<in> set (stdout_lines env). \<not> fst l
           \<and> (\<forall>x. parse_line (snd l) = OutTime x
                  \<longrightarrow> (\<exists>p. progress_from_out_time x (duration m) = Inr p))"
    and "\<not> cancel_at_exit env" and "returncode env \<noteq> 0" and "raised r = None"
  shows "status (item (encode_item cb cfg env t m r)) = STATUS_FAILED
       \<and> raised (encode_item cb cfg env t m r) = None
       \<and> error (item (encode_item cb cfg env t m r)) = failure_text (stderr_lines env)"
proof -
  let ?r1 = "perform [Popen (str_path t), Register (item_id (item r))] r"
  let ?R = "fst (read_stdout cb (proc env) m (stdout_lines env) ?r1)"
  let ?r4 = "perform [ClosePipes, Unregister (item_id (item r))] (perform [ProcWait] ?R)"
  from assms(5) have r1: "raised ?r1 = None" by (simp add: perform_def)
  from read_stdout_quiet [OF assms(2), of cb "proc env" ?r1] r1
  have loop: "snd (read_stdout cb (proc env) m (stdout_lines env) ?r1) = False"
    and quiet: "raised ?R = None" by simp_all
  from quiet have r4: "raised ?r4 = None" by (simp add: perform_def)
  have "encode_item cb cfg env t m r = finish_item cb cfg env t ?r4"
    using assms(1,3) loop quiet by (simp add: encode_item_def Let_def perform_def)
  with finish_item_failed [OF assms(4)] finish_item_raised [of cb cfg env t ?r4] r4
  show ?thesis by simp
qed

text \<open>
  Claim C4, as the code has it, for a job that reaches the probe: it is not cancelled
  when the worker takes it up, its output directory can be made and its temporary output
  path can be computed. The classification belongs to the probe: when the probe before
  the encode raises with a text that contains \<open>invalid data found when processing
  input\<close> or \<open>moov atom not found\<close>, in any letter case, the item ends as
  \<open>STATUS_FAILED\<close> with the error \<open>File is corrupted or incomplete: \<close> followed by that
  text. When the encoding process itself exits with a status other than 0 (the batch
  is not cancelled, and the progress arithmetic raises for none of the elapsed times of
  the stream), the item ends as \<open>STATUS_FAILED\<close> with the process's diagnostic lines as
  its error, joined by \<open>; \<close> and trimmed, or \<open>ffmpeg failed\<close> when that is empty. In
  both cases the call returns.
\<close>

theorem failure_text_by_stage:
  assumes "\<not> cancel_at_entry env" and "mkdir_raises env = None" and "\<not> dry_run cfg"
    and "temp_output_path (fs_entries env) (parse_path (output_path it)) = Inr temp_output"
  shows "(\<forall>msg. probe_result env = Inl msg \<longrightarrow>
            status (item (process_item cb cfg env it)) = STATUS_FAILED
            \<and> raised (process_item cb cfg env it) = None
            \<and> (contains ''invalid data found when processing input'' (lower msg)
                 \<or> contains ''moov atom not found'' (lower msg) \<longrightarrow>
               error (item (process_item cb cfg env it)) = ''File is corrupted or incomplete: '' @ msg
               \<and> corruption_classified (error (item (process_item cb cfg env it))))
            \<and> (\<not> contains ''invalid data found when processing input'' (lower msg)
                 \<and> \<not> contains ''moov atom not found'' (lower msg) \<longrightarrow>
               error (item (process_item cb cfg env it)) = msg))
       \<and> (\<forall>m. probe_result env = Inr m \<and> popen_raises env = None
               \<and> (\<forall>l \<in> set (stdout_lines env). \<not> fst l
                     \<and> (\<forall>x. parse_line (snd l) = OutTime x
                            \<longrightarrow> (\<exists>p. progress_from_out_time x (duration m) = Inr p)))
               \<and> \<not> cancel_at_exit env \<and> returncode env \<noteq> 0 \<longrightarrow>
            status (item (process_item cb cfg env it)) = STATUS_FAILED
            \<and> raised (process_item cb cfg env it) = None
            \<and> error (item (process_item cb cfg env it))
                = (if strip (join ''; '' (map rstrip (stderr_lines env))) = [] then ''ffmpeg failed''
                   else strip (join ''; '' (map rstrip (stderr_lines env)))))"
proof (intro conjI allI impI)
  note t = assms(4)
  {
    fix msg assume p: "probe_result env = Inl msg"
    from assms(1-3) t p show "status (item (process_item cb cfg env it)) = STATUS_FAILED"
      by (simp add: process_item_def Let_def emit_item_def log_item_def perform_def set_item_def)
    from assms(1-3) t p show "raised (process_item cb cfg env it) = None"
      by (simp add: process_item_def Let_def emit_item_def log_item_def perform_def set_item_def)
    from assms(1-3) t p have e: "error (item (process_item cb cfg env it)) = probe_failure_text msg"
      by (simp add: process_item_def Let_def emit_item_def log_item_def perform_def set_item_def)
    {
      assume "contains ''invalid data found when processing input'' (lower msg)
              \<or> contains ''moov atom not found'' (lower msg)"
      then show c: "error (item (process_item cb cfg env it)) = ''File is corrupted or incomplete: '' @ msg"
        unfolding e by (auto simp: probe_failure_text_def)
      show "corruption_classified (error (item (process_item cb cfg env it)))"
        unfolding c corruption_classified_def by simp
    }
    {
      assume "\<not> contains ''invalid data found when processing input'' (lower msg)
              \<and> \<not> contains ''moov atom not found'' (lower msg)"
      then show "error (item (process_item cb cfg env it)) = msg"
        unfolding e by (simp add: probe_failure_text_def)
    }
  }
  fix m
  assume a: "probe_result env = Inr m \<and> popen_raises env = None
               \<and> (\<forall>l \<in> set (stdout_lines env). \<not> fst l
                     \<and> (\<forall>x. parse_line (snd l) = OutTime x
                            \<longrightarrow> (\<exists>p. progress_from_out_time x (duration m) = Inr p)))
               \<and> \<not> cancel_at_exit env \<and> returncode env \<noteq> 0"
  let ?r = "set_item (\<lambda>i. i\<lparr>media := Some m,
                progress := (if duration m = None \<or> duration m = Some (Finite 0)
                             then None else progress i)\<rparr>)
              (perform [ProbeMedia (input_path it)]
                (set_item (\<lambda>i. i\<lparr>input_bytes := stat_input env\<rparr>)
                  (perform [Mkdir (output_path it)]
                    (emit_item cb \<lparr>item = it\<lparr>status := STATUS_RUNNING, progress := Some 0\<rparr>,
                                  effects = [], raised = None\<rparr>))))"
  have run: "process_item cb cfg env it = encode_item cb cfg env temp_output m ?r"
    using assms(1-3) t a by (simp add: process_item_def Let_def)
  have rz: "raised ?r = None"
    by (simp add: set_item_def perform_def emit_item_def)
  from a have "popen_raises env = None"
    "\<forall>l \<in> set (stdout_lines env). \<not> fst l
       \<and> (\<forall>x. parse_line (snd l) = OutTime x
              \<longrightarrow> (\<exists>p. progress_from_out_time x (duration m) = Inr p))"
    "\<not> cancel_at_exit env" "returncode env \<noteq> 0" by blast+
  note f = encode_item_failed [OF this rz, of cb cfg temp_output]
  from f show "status (item (process_item cb cfg env it)) = STATUS_FAILED"
    unfolding run by simp
  from f show "raised (process_item cb cfg env it) = None"
    unfolding run by simp
  from f show "error (item (process_item cb cfg env it))
                = (if strip (join ''; '' (map rstrip (stderr_lines env))) = [] then ''ffmpeg failed''
                   else strip (join ''; '' (map rstrip (stderr_lines env))))"
    unfolding run by (simp add: failure_text_def Let_def)
qed

theorem failure_text_by_stage_witness:
  "error (item (process_item True sample_config
       (sample_env\<lparr>probe_result := Inl ''Invalid data found when processing input''\<rparr>)
       (sample_item 1 STATUS_QUEUED)))
     = ''File is corrupted or incomplete: Invalid data found when processing input''
   \<and> error (item (process_item True sample_config
       (sample_env\<lparr>returncode := 1,
                    stderr_lines := [''clip.mp4: Invalid argument '', ''Conversion failed!'']\<rparr>)
       (sample_item 1 STATUS_QUEUED)))
     = ''clip.mp4: Invalid argument; Conversion failed!''
   \<and> raised (process_item True sample_config
       (sample_env\<lparr>returncode := 1,
                    stderr_lines := [''clip.mp4: Invalid argument '', ''Conversion failed!'']\<rparr>)
       (sample_item 1 STATUS_QUEUED)) = None"
proof -
  have l: "lower ''Invalid data found when processing input''
            = ''invalid data found when processing input''"
    by (simp add: lower_def lower_char_def)
  have c: "contains ''invalid data found when processing input''
             ''invalid data found when processing input''"
    by simp
  have t: "temp_output_path [([''out'', ''clip.partial.mp4''], None)]
             (parse_path (output_path (sample_item 1 STATUS_QUEUED)))
           = Inr [''out'', ''clip.partial1.mp4'']"
    by (simp add: sample_defs)
  have a: "error (item (process_item True sample_config
       (sample_env\<lparr>probe_result := Inl ''Invalid data found when processing input''\<rparr>)
       (sample_item 1 STATUS_QUEUED)))
     = ''File is corrupted or incomplete: Invalid data found when processing input''"
    using failure_text_by_stage [of "sample_env\<lparr>probe_result := Inl ''Invalid data found when processing input''\<rparr>"
        sample_config "sample_item 1 STATUS_QUEUED" "[''out'', ''clip.partial1.mp4'']" True] l c t
    by (simp add: sample_env_def sample_config_def)
  have q: "\<forall>l \<in> set [(False, ''out_time_ms=500000''), (False, ''out_time_ms=1000000''),
                       (False, ''progress=end'')]. \<not> fst l
             \<and> (\<forall>x. parse_line (snd l) = OutTime x
                    \<longrightarrow> (\<exists>p. progress_from_out_time x (Some (Finite 10)) = Inr p))"
    by (simp add: parse_line_out_time_500000 parse_line_out_time_1000000
          parse_line_progress_end progress_500000 progress_1000000)
  have b: "error (item (process_item True sample_config
       (sample_env\<lparr>returncode := 1,
                    stderr_lines := [''clip.mp4: Invalid argument '', ''Conversion failed!'']\<rparr>)
       (sample_item 1 STATUS_QUEUED)))
     = ''clip.mp4: Invalid argument; Conversion failed!''
   \<and> raised (process_item True sample_config
       (sample_env\<lparr>returncode := 1,
                    stderr_lines := [''clip.mp4: Invalid argument '', ''Conversion failed!'']\<rparr>)
       (sample_item 1 STATUS_QUEUED)) = None"
    using failure_text_by_stage [of "sample_env\<lparr>returncode := 1,
                    stderr_lines := [''clip.mp4: Invalid argument '', ''Conversion failed!'']\<rparr>"
        sample_config "sample_item 1 STATUS_QUEUED" "[''out'', ''clip.partial1.mp4'']" True] t q
    by (simp add: sample_env_def sample_config_def text_defs MediaInfo_default_def)
  from a b show ?thesis by simp
qed

text \<open>
  The claim as it was stated fails: an encoding process that exits with status 1 and
  writes \<open>invalid data found when processing input\<close> leaves exactly that line as the
  error, without the classification.
\<close>

theorem encode_failure_unclassified:
  "status (item (process_item True sample_config
      (sample_env\<lparr>stdout_lines := [], returncode := 1,
                   stderr_lines := [''invalid data found when processing input'']\<rparr>)
      (sample_item 1 STATUS_QUEUED))) = STATUS_FAILED
   \<and> error (item (process_item True sample_config
      (sample_env\<lparr>stdout_lines := [], returncode := 1,
                   stderr_lines := [''invalid data found when processing input'']\<rparr>)
      (sample_item 1 STATUS_QUEUED))) = ''invalid data found when processing input''
   \<and> \<not> corruption_classified (error (item (process_item True sample_config
      (sample_env\<lparr>stdout_lines := [], returncode := 1,
                   stderr_lines := [''invalid data found when processing input'']\<rparr>)
      (sample_item 1 STATUS_QUEUED))))"
proof -
  have e: "item (process_item True sample_config
      (sample_env\<lparr>stdout_lines := [], returncode := 1,
                   stderr_lines := [''invalid data found when processing input'']\<rparr>)
      (sample_item 1 STATUS_QUEUED))
    = (sample_item 1 STATUS_FAILED)
        \<lparr>error := ''invalid data found when processing input'', input_bytes := Some 1000,
         media := Some (MediaInfo_default\<lparr>duration := Some (Finite 10)\<rparr>)\<rparr>"
    by (simp add: process_item_def encode_item_def finish_item_def failure_text_def Let_def
          sample_defs set_item_def perform_def emit_item_def log_item_def cleanup_partial_def
          text_defs)
  show ?thesis
    unfolding e by (simp add: sample_item_def new_item_def corruption_classified_def)
qed

subsection \<open>Progress without a duration\<close>

lemma progress_unknown:
  "dur = None \<or> (\<exists>d. dur = Some d \<and> fle d (Finite 0)) \<Longrightarrow>
     progress_from_out_time out_us dur = Inr None"
  by (auto simp: progress_from_out_time_def)

lemma handle_line_unknown:
  assumes "duration m = None \<or> (\<exists>d. duration m = Some d \<and> fle d (Finite 0))"
  shows "handle_line cb m raw r =
           (if parse_line raw = ProgressEnd
            then emit_item cb (r\<lparr>item := (item r)\<lparr>progress := Some 100\<rparr>\<rparr>) else r)"
  using progress_unknown [OF assms]
  by (simp add: handle_line_def split: progress_line.splits)

lemma emitted_items_ProcCall: "emitted_items (map ProcCall calls) = []"
  by (induction calls) simp_all

lemma read_stdout_unknown_quiet:
  assumes "duration m = None \<or> (\<exists>d. duration m = Some d \<and> fle d (Finite 0))"
    and "\<forall>l \<in> set lines. parse_line (snd l) \<noteq> ProgressEnd"
  shows "item (fst (read_stdout cb p m lines r)) = item r
       \<and> emitted_items (effects (fst (read_stdout cb p m lines r))) = emitted_items (effects r)"
  using assms(2)
proof (induction lines arbitrary: r)
  case Nil
  show ?case by simp
next
  case (Cons l lines)
  obtain c raw where l: "l = (c, raw)" by (cases l)
  from Cons.prems l have ne: "parse_line raw \<noteq> ProgressEnd" by simp
  from Cons.prems have rest: "\<forall>l \<in> set lines. parse_line (snd l) \<noteq> ProgressEnd" by simp
  show ?case
    using Cons.IH [OF rest, of r] ne
    by (simp add: l handle_line_unknown [OF assms(1)] emitted_items_append
          emitted_items_ProcCall split: prod.splits)
qed

lemma read_stdout_unknown_hundreds:
  assumes "duration m = None \<or> (\<exists>d. duration m = Some d \<and> fle d (Finite 0))"
  shows "\<exists>k. emitted_progress (effects (fst (read_stdout cb p m lines r)))
               = emitted_progress (effects r) @ replicate k (Some 100)"
proof (induction lines arbitrary: r)
  case Nil
  show ?case by (intro exI [of _ 0]) simp
next
  case (Cons l lines)
  obtain c raw where l: "l = (c, raw)" by (cases l)
  show ?case
  proof (cases c)
    case True
    have "emitted_progress (effects (fst (read_stdout cb p m (l # lines) r)))
            = emitted_progress (effects r) @ replicate 0 (Some 100)"
      using True
      by (simp add: l emitted_progress_def emitted_items_append emitted_items_ProcCall
            split: prod.splits)
    then show ?thesis by blast
  next
    case False
    let ?h = "handle_line cb m raw r"
    have "\<exists>k0. emitted_progress (effects ?h) = emitted_progress (effects r) @ replicate k0 (Some 100)"
    proof (cases "parse_line raw = ProgressEnd \<and> cb")
      case True
      then have "emitted_progress (effects ?h) = emitted_progress (effects r) @ replicate 1 (Some 100)"
        by (simp add: handle_line_unknown [OF assms] emit_item_def emitted_progress_def
              emitted_items_append)
      then show ?thesis by blast
    next
      case False
      then have "emitted_progress (effects ?h) = emitted_progress (effects r) @ replicate 0 (Some 100)"
        by (auto simp: handle_line_unknown [OF assms] emit_item_def)
      then show ?thesis by blast
    qed
    then obtain k0 where
      k0: "emitted_progress (effects ?h) = emitted_progress (effects r) @ replicate k0 (Some 100)"
      by blast
    show ?thesis
    proof (cases "raised ?h = None")
      case True
      from Cons.IH [of ?h] obtain k where
        k: "emitted_progress (effects (fst (read_stdout cb p m lines ?h)))
              = emitted_progress (effects ?h) @ replicate k (Some 100)"
        by blast
      from True \<open>\<not> c\<close> have "read_stdout cb p m (l # lines) r = read_stdout cb p m lines ?h"
        by (simp add: l)
      with k k0 have "emitted_progress (effects (fst (read_stdout cb p m (l # lines) r)))
            = emitted_progress (effects r) @ replicate (k0 + k) (Some 100)"
        by (simp add: replicate_add)
      then show ?thesis by blast
    next
      case False
      with \<open>\<not> c\<close> have "read_stdout cb p m (l # lines) r = (?h, False)"
        by (simp add: l)
      with k0 show ?thesis by (intro exI [of _ k0]) simp
    qed
  qed
qed

text \<open>
  Claim C5, as the code has it. When the probe gives no duration, or a duration that is
  not positive, no elapsed-time line yields a percentage: such a line changes nothing and
  reports nothing, and whatever the loop reports is the 100 of an end-of-stream marker.
  When the probe gives no duration or the duration 0, the item's progress is set to
  unknown right after the probe, before the process is started.
\<close>

theorem unknown_duration_progress:
  assumes "duration m = None \<or> (\<exists>d. duration m = Some d \<and> fle d (Finite 0))"
  shows "progress_from_out_time out_us (duration m) = Inr None
       \<and> (parse_line raw = OutTime out_us \<longrightarrow> handle_line cb m raw r = r)
       \<and> ((\<forall>l \<in> set lines. parse_line (snd l) \<noteq> ProgressEnd) \<longrightarrow>
             item (fst (read_stdout cb p m lines r)) = item r
             \<and> emitted_items (effects (fst (read_stdout cb p m lines r)))
                 = emitted_items (effects r))
       \<and> (\<exists>k. emitted_progress (effects (fst (read_stdout cb p m lines r)))
                 = emitted_progress (effects r) @ replicate k (Some 100))
       \<and> ((duration m = None \<or> duration m = Some (Finite 0)) \<and> \<not> cancel_at_entry env
             \<and> mkdir_raises env = None \<and> \<not> dry_run cfg \<and> probe_result env = Inr m \<longrightarrow>
           process_item cb cfg env it
             = (case temp_output_path (fs_entries env) (parse_path (output_path it)) of
                  Inl e \<Rightarrow>
                    \<lparr>item = it\<lparr>status := STATUS_RUNNING, progress := Some 0\<rparr>,
                     effects = (if cb then [EmitItem (it\<lparr>status := STATUS_RUNNING,
                                                          progress := Some 0\<rparr>)]
                                else [])
                               @ [Mkdir (output_path it)],
                     raised = Some e\<rparr>
                | Inr temp_output \<Rightarrow>
                    encode_item cb cfg env temp_output m
                      \<lparr>item = it\<lparr>status := STATUS_RUNNING, input_bytes := stat_input env,
                                   media := Some m, progress := None\<rparr>,
                       effects = (if cb then [EmitItem (it\<lparr>status := STATUS_RUNNING,
                                                            progress := Some 0\<rparr>)]
                                  else [])
                                 @ [Mkdir (output_path it), ProbeMedia (input_path it)],
                       raised = None\<rparr>))"
proof -
  have a: "progress_from_out_time out_us (duration m) = Inr None"
    by (rule progress_unknown [OF assms])
  have b: "parse_line raw = OutTime out_us \<longrightarrow> handle_line cb m raw r = r"
    by (simp add: handle_line_unknown [OF assms])
  have c: "(\<forall>l \<in> set lines. parse_line (snd l) \<noteq> ProgressEnd) \<longrightarrow>
             item (fst (read_stdout cb p m lines r)) = item r
             \<and> emitted_items (effects (fst (read_stdout cb p m lines r)))
                 = emitted_items (effects r)"
    using read_stdout_unknown_quiet [OF assms] by blast
  note d = read_stdout_unknown_hundreds [OF assms, of cb p lines r]
  have e: "(duration m = None \<or> duration m = Some (Finite 0)) \<and> \<not> cancel_at_entry env
             \<and> mkdir_raises env = None \<and> \<not> dry_run cfg \<and> probe_result env = Inr m \<longrightarrow>
           process_item cb cfg env it
             = (case temp_output_path (fs_entries env) (parse_path (output_path it)) of
                  Inl e \<Rightarrow>
                    \<lparr>item = it\<lparr>status := STATUS_RUNNING, progress := Some 0\<rparr>,
                     effects = (if cb then [EmitItem (it\<lparr>status := STATUS_RUNNING,
                                                          progress := Some 0\<rparr>)]
                                else [])
                               @ [Mkdir (output_path it)],
                     raised = Some e\<rparr>
                | Inr temp_output \<Rightarrow>
                    encode_item cb cfg env temp_output m
                      \<lparr>item = it\<lparr>status := STATUS_RUNNING, input_bytes := stat_input env,
                                   media := Some m, progress := None\<rparr>,
                       effects = (if cb then [EmitItem (it\<lparr>status := STATUS_RUNNING,
                                                            progress := Some 0\<rparr>)]
                                  else [])
                                 @ [Mkdir (output_path it), ProbeMedia (input_path it)],
                       raised = None\<rparr>)"
    by (cases "temp_output_path (fs_entries env) (parse_path (output_path it))")
       (auto simp: process_item_def Let_def emit_item_def perform_def set_item_def)
  from a b c d e show ?thesis by blast
qed

theorem unknown_duration_progress_witness:
  "progress_from_out_time 500000 (duration MediaInfo_default) = Inr None
   \<and> emitted_items (effects (fst (read_stdout True stubborn_process MediaInfo_default
        [(False, ''out_time_ms=500000''), (False, ''out_time_ms=1000000'')]
        \<lparr>item = (sample_item 1 STATUS_RUNNING)\<lparr>progress := None\<rparr>, effects = [],
          raised = None\<rparr>))) = []"
proof -
  let ?r = "\<lparr>item = (sample_item 1 STATUS_RUNNING)\<lparr>progress := None\<rparr>, effects = [],
             raised = None\<rparr>"
  let ?lines = "[(False, ''out_time_ms=500000''), (False, ''out_time_ms=1000000'')]"
  have u: "duration MediaInfo_default = None
           \<or> (\<exists>d. duration MediaInfo_default = Some d \<and> fle d (Finite 0))"
    by (simp add: MediaInfo_default_def)
  have ne: "\<forall>l \<in> set ?lines. parse_line (snd l) \<noteq> ProgressEnd"
    by (simp add: parse_line_out_time_500000 parse_line_out_time_1000000)
  note t = unknown_duration_progress [OF u, where out_us = 500000 and cb = True
      and p = stubborn_process and lines = ?lines and r = ?r]
  from t have a: "progress_from_out_time 500000 (duration MediaInfo_default) = Inr None"
    by blast
  from t ne have "emitted_items (effects (fst (read_stdout True stubborn_process
        MediaInfo_default ?lines ?r))) = emitted_items (effects ?r)"
    by blast
  then have b: "emitted_items (effects (fst (read_stdout True stubborn_process
        MediaInfo_default ?lines ?r))) = []"
    by (simp del: read_stdout.simps)
  from a b show ?thesis by blast
qed

text \<open>
  The claim as it was stated fails: with no duration known, the end-of-stream marker
  still reports 100, after the 0 reported when the job starts and before the 100 of the
  successful end.
\<close>

theorem end_marker_reports_without_duration:
  "duration MediaInfo_default = None
   \<and> emitted_progress (effects (process_item True sample_config
        (sample_env\<lparr>probe_result := Inr MediaInfo_default,
                     stdout_lines := [(False, ''out_time_ms=500000''), (False, ''progress=end'')]\<rparr>)
        (sample_item 1 STATUS_QUEUED)))
     = [Some 0, Some 100, Some 100]"
  by (simp add: process_item_def encode_item_def finish_item_def Let_def handle_line_def
        parse_line_out_time_500000 parse_line_progress_end progress_from_out_time_def
        sample_defs set_item_def perform_def emit_item_def log_item_def
        cleanup_partial_def emitted_progress_def)

subsection \<open>Progress never goes down\<close>

lemma parse_line_out_time_600000: "parse_line ''out_time_ms=600000'' = OutTime 600000"
  by (simp add: parse_line_def text_defs int_defs)

lemma nondecreasing_snoc:
  assumes "nondecreasing ps" and "\<forall>q \<in> set ps. \<exists>v. q = Some v \<and> v \<le> c"
  shows "nondecreasing (ps @ [Some c])"
  using assms by (auto simp: nondecreasing_def sorted_wrt_append)

lemma out_times_dropWhile: "out_times es = [] \<Longrightarrow> out_times (dropWhile P es) = []"
  by (induction es rule: out_times.induct) (auto split: if_splits)


lemma read_stdout_emitted_status:
  assumes "status (item r) = s" and "\<forall>i \<in> set (emitted_items (effects r)). status i = s"
  shows "\<forall>i \<in> set (emitted_items (effects (fst (read_stdout cb p m lines r)))). status i = s"
  using assms
proof (induction lines arbitrary: r)
  case Nil
  then show ?case by simp
next
  case (Cons l lines)
  obtain c raw where l: "l = (c, raw)" by (cases l)
  show ?case
  proof (cases c)
    case True
    with Cons.prems show ?thesis
      by (simp add: l emitted_items_append emitted_items_ProcCall split: prod.splits)
  next
    case False
    have st: "status (item (handle_line cb m raw r)) = s"
      using Cons.prems(1)
      by (simp add: handle_line_def emit_item_def split: progress_line.splits sum.splits)
    have em: "\<forall>i \<in> set (emitted_items (effects (handle_line cb m raw r))). status i = s"
      using Cons.prems
      by (auto simp: handle_line_def emit_item_def emitted_items_append
            split: progress_line.splits sum.splits)
    from Cons.IH [OF st em] em False show ?thesis by (simp add: l)
  qed
qed

lemma handle_line_monotone:
  assumes so: "sorted (out_times (parse_line raw # es))"
    and el: "end_marker_last (parse_line raw # es)"
    and pr: "progress (item r) = Some c" and c100: "c \<le> 100"
    and lb: "\<forall>x \<in> set (out_times (parse_line raw # es)).
               \<forall>v. progress_from_out_time x (duration m) = Inr (Some v) \<longrightarrow> c \<le> v"
    and nd: "nondecreasing (emitted_progress (effects r))"
    and ub: "\<forall>q \<in> set (emitted_progress (effects r)). \<exists>v. q = Some v \<and> v \<le> c"
  shows "\<exists>c1. progress (item (handle_line cb m raw r)) = Some c1 \<and> c \<le> c1 \<and> c1 \<le> 100
           \<and> nondecreasing (emitted_progress (effects (handle_line cb m raw r)))
           \<and> (\<forall>q \<in> set (emitted_progress (effects (handle_line cb m raw r))).
                 \<exists>v. q = Some v \<and> v \<le> c1)
           \<and> (\<forall>x \<in> set (out_times es).
                 \<forall>v. progress_from_out_time x (duration m) = Inr (Some v) \<longrightarrow> c1 \<le> v)
           \<and> sorted (out_times es) \<and> end_marker_last es"
proof -
  have keep: "handle_line cb m raw r = r \<or> (\<exists>e. handle_line cb m raw r = r\<lparr>raised := Some e\<rparr>)
      \<Longrightarrow> out_times (parse_line raw # es) = out_times es \<or> (\<exists>x. parse_line raw = OutTime x)
      \<Longrightarrow> parse_line raw \<noteq> ProgressEnd \<Longrightarrow> ?thesis"
  proof -
    assume h: "handle_line cb m raw r = r \<or> (\<exists>e. handle_line cb m raw r = r\<lparr>raised := Some e\<rparr>)"
      and o: "out_times (parse_line raw # es) = out_times es \<or> (\<exists>x. parse_line raw = OutTime x)"
      and ne: "parse_line raw \<noteq> ProgressEnd"
    from o so have so': "sorted (out_times es)" by auto
    from ne el have el': "end_marker_last es" by (simp add: end_marker_last_def)
    from o lb have lb': "\<forall>x \<in> set (out_times es).
               \<forall>v. progress_from_out_time x (duration m) = Inr (Some v) \<longrightarrow> c \<le> v"
      by auto
    from h have i: "item (handle_line cb m raw r) = item r"
      and e: "effects (handle_line cb m raw r) = effects r" by auto
    from pr c100 nd ub so' el' lb' show ?thesis
      unfolding i e by (intro exI [of _ c]) simp
  qed
  show ?thesis
  proof (cases "parse_line raw")
    case Skip
    then have "handle_line cb m raw r = r" by (simp add: handle_line_def)
    with Skip show ?thesis by (intro keep) auto
  next
    case (OutTime x)
    show ?thesis
    proof (cases "progress_from_out_time x (duration m)")
      case (Inl e)
      with OutTime have "handle_line cb m raw r = r\<lparr>raised := Some e\<rparr>"
        by (simp add: handle_line_def)
      with OutTime show ?thesis by (intro keep) auto
    next
      case (Inr po)
      show ?thesis
      proof (cases po)
        case None
        with Inr OutTime have "handle_line cb m raw r = r" by (simp add: handle_line_def)
        with OutTime show ?thesis by (intro keep) auto
      next
        case (Some v)
        with Inr have pv: "progress_from_out_time x (duration m) = Inr (Some v)" by simp
        from so OutTime have so1: "sorted (x # out_times es)" by simp
        from el OutTime have el': "end_marker_last es" by (simp add: end_marker_last_def)
        from lb OutTime pv have cv: "c \<le> v" by simp
        from progress_from_out_time_range [OF pv] have v100: "v \<le> 100" by simp
        let ?r1 = "handle_line cb m raw r"
        have h: "?r1 = (if v \<noteq> c then emit_item cb (r\<lparr>item := (item r)\<lparr>progress := Some v\<rparr>\<rparr>) else r)"
          using OutTime pv pr by (simp add: handle_line_def)
        have p1: "progress (item ?r1) = Some v"
          using pr by (simp add: h emit_item_def)
        have b1: "\<forall>y \<in> set (out_times es).
                    \<forall>w. progress_from_out_time y (duration m) = Inr (Some w) \<longrightarrow> v \<le> w"
        proof (intro ballI allI impI)
          fix y w
          assume y: "y \<in> set (out_times es)"
            and w: "progress_from_out_time y (duration m) = Inr (Some w)"
          from so1 y have "x \<le> y" by simp
          from progress_from_out_time_mono [OF this pv w] show "v \<le> w" .
        qed
        have q0: "\<forall>q \<in> set (emitted_progress (effects r)). \<exists>w. q = Some w \<and> w \<le> v"
          using ub cv by force
        then have q1: "\<forall>q \<in> set (emitted_progress (effects ?r1)). \<exists>w. q = Some w \<and> w \<le> v"
          by (auto simp: h emit_item_def emitted_progress_def emitted_items_append)
        from nondecreasing_snoc [OF nd q0]
        have n1: "nondecreasing (emitted_progress (effects ?r1))"
          using nd by (simp add: h emit_item_def emitted_progress_def emitted_items_append)
        from so1 have s1: "sorted (out_times es)" by simp
        from p1 cv v100 n1 q1 b1 s1 el' show ?thesis
          by (intro exI [of _ v]) simp
      qed
    qed
  next
    case ProgressEnd
    let ?r1 = "handle_line cb m raw r"
    have h: "?r1 = emit_item cb (r\<lparr>item := (item r)\<lparr>progress := Some 100\<rparr>\<rparr>)"
      using ProgressEnd by (simp add: handle_line_def)
    from el ProgressEnd have none: "out_times es = []"
      by (simp add: end_marker_last_def)
    then have s1: "sorted (out_times es)"
      and el': "end_marker_last es"
      and b1: "\<forall>y \<in> set (out_times es).
                 \<forall>w. progress_from_out_time y (duration m) = Inr (Some w) \<longrightarrow> 100 \<le> w"
      by (simp_all add: end_marker_last_def out_times_dropWhile)
    have p1: "progress (item ?r1) = Some 100" by (simp add: h emit_item_def)
    have q0: "\<forall>q \<in> set (emitted_progress (effects r)). \<exists>v. q = Some v \<and> v \<le> 100"
      using ub c100 by force
    then have q1: "\<forall>q \<in> set (emitted_progress (effects ?r1)). \<exists>v. q = Some v \<and> v \<le> 100"
      by (auto simp: h emit_item_def emitted_progress_def emitted_items_append)
    from nondecreasing_snoc [OF nd q0]
    have n1: "nondecreasing (emitted_progress (effects ?r1))"
      using nd by (simp add: h emit_item_def emitted_progress_def emitted_items_append)
    from p1 c100 n1 q1 b1 s1 el' show ?thesis
      by (intro exI [of _ 100]) simp
  qed
qed

lemma read_stdout_monotone:
  assumes "sorted (out_times (events lines))" and "end_marker_last (events lines)"
    and "progress (item r) = Some c" and "c \<le> 100"
    and "\<forall>x \<in> set (out_times (events lines)).
           \<forall>v. progress_from_out_time x (duration m) = Inr (Some v) \<longrightarrow> c \<le> v"
    and "nondecreasing (emitted_progress (effects r))"
    and "\<forall>q \<in> set (emitted_progress (effects r)). \<exists>v. q = Some v \<and> v \<le> c"
  shows "\<exists>c'. progress (item (fst (read_stdout cb p m lines r))) = Some c' \<and> c \<le> c' \<and> c' \<le> 100
           \<and> nondecreasing (emitted_progress (effects (fst (read_stdout cb p m lines r))))
           \<and> (\<forall>q \<in> set (emitted_progress (effects (fst (read_stdout cb p m lines r)))).
                 \<exists>v. q = Some v \<and> v \<le> c')"
  using assms
proof (induction lines arbitrary: r c)
  case Nil
  then show ?case by simp
next
  case (Cons l lines)
  obtain cf raw where l: "l = (cf, raw)" by (cases l)
  have ev: "events (l # lines) = parse_line raw # events lines"
    by (simp add: events_def l)
  show ?case
  proof (cases cf)
    case True
    with Cons.prems show ?thesis
      by (simp add: l emitted_progress_def emitted_items_append emitted_items_ProcCall
            split: prod.splits)
  next
    case False
    let ?r1 = "handle_line cb m raw r"
    from handle_line_monotone [OF Cons.prems(1,2,3,4,5,6,7) [unfolded ev], of cb]
    obtain c1 where c1: "progress (item ?r1) = Some c1" "c \<le> c1" "c1 \<le> 100"
      "nondecreasing (emitted_progress (effects ?r1))"
      "\<forall>q \<in> set (emitted_progress (effects ?r1)). \<exists>v. q = Some v \<and> v \<le> c1"
      "\<forall>x \<in> set (out_times (events lines)).
         \<forall>v. progress_from_out_time x (duration m) = Inr (Some v) \<longrightarrow> c1 \<le> v"
      "sorted (out_times (events lines))" "end_marker_last (events lines)"
      by blast
    show ?thesis
    proof (cases "raised ?r1 = None")
      case True
      with False have step: "read_stdout cb p m (l # lines) r = read_stdout cb p m lines ?r1"
        by (simp add: l)
      from Cons.IH [OF c1(7,8,1,3,6,4,5)]
      obtain c' where "progress (item (fst (read_stdout cb p m lines ?r1))) = Some c'"
        "c1 \<le> c'" "c' \<le> 100"
        "nondecreasing (emitted_progress (effects (fst (read_stdout cb p m lines ?r1))))"
        "\<forall>q \<in> set (emitted_progress (effects (fst (read_stdout cb p m lines ?r1)))).
                 \<exists>v. q = Some v \<and> v \<le> c'"
        by blast
      with c1(2) show ?thesis unfolding step by (intro exI [of _ c']) simp
    next
      case stop: False
      with False have step: "read_stdout cb p m (l # lines) r = (?r1, False)"
        by (simp add: l)
      from c1 show ?thesis unfolding step by (intro exI [of _ c1]) simp
    qed
  qed
qed

lemma emitted_extend:
  assumes "nondecreasing (map progress xs)"
    and "\<forall>i \<in> set xs. \<exists>v. progress i = Some v \<and> v \<le> c"
    and "\<forall>i \<in> set xs. status i = STATUS_RUNNING"
    and "ys = [] \<or> (\<exists>f v. ys = [f] \<and> progress f = Some v \<and> c \<le> v)"
  shows "nondecreasing (map progress (xs @ ys))
       \<and> (\<forall>i \<in> set (butlast (xs @ ys)). status i = STATUS_RUNNING)"
proof (cases "ys = []")
  case True
  with assms(1,3) show ?thesis by (auto dest: in_set_butlastD)
next
  case False
  with assms(4) obtain f v where f: "ys = [f]" "progress f = Some v" "c \<le> v" by blast
  have "\<forall>q \<in> set (map progress xs). \<exists>w. q = Some w \<and> w \<le> v"
    using assms(2) f(3) by force
  from nondecreasing_snoc [OF assms(1) this] f(1,2) assms(3) show ?thesis
    by (simp add: butlast_append)
qed

lemma nondecreasing_const: "\<forall>q \<in> set ps. q = Some c \<Longrightarrow> nondecreasing ps"
  by (induction ps) (auto simp: nondecreasing_def)


lemma finish_item_emitted:
  "emitted_items (effects (finish_item cb cfg env t r))
     = emitted_items (effects r) @ (if cb then [item (finish_item cb cfg env t r)] else [])
   \<and> (progress (item (finish_item cb cfg env t r)) = progress (item r)
        \<or> progress (item (finish_item cb cfg env t r)) = Some 100)"
  by (simp add: finish_item_def Let_def set_item_def perform_def emit_item_def log_item_def
        cleanup_partial_def emitted_items_append split: option.splits)

lemma encode_item_emitted:
  assumes "popen_raises env = None"
  shows "\<exists>ys. emitted_items (effects (encode_item cb cfg env t m r))
            = emitted_items (effects (fst (read_stdout cb (proc env) m (stdout_lines env)
                 (perform [Popen (str_path t), Register (item_id (item r))] r)))) @ ys
          \<and> (ys = [] \<or> (\<exists>f. ys = [f]
                \<and> (progress f = progress (item (fst (read_stdout cb (proc env) m (stdout_lines env)
                      (perform [Popen (str_path t), Register (item_id (item r))] r))))
                    \<or> progress f = Some 100)))"
proof -
  let ?R = "fst (read_stdout cb (proc env) m (stdout_lines env)
                 (perform [Popen (str_path t), Register (item_id (item r))] r))"
  let ?r3 = "if raised ?R = None then perform [ProcWait] ?R else ?R"
  let ?r4 = "perform [ClosePipes, Unregister (item_id (item r))] ?r3"
  have e4: "emitted_items (effects ?r4) = emitted_items (effects ?R)"
    by (simp add: perform_def emitted_items_append)
  have i4: "item ?r4 = item ?R" by (simp add: perform_def)
  consider (raised) "raised ?r4 \<noteq> None"
    | (cancel) "raised ?r4 = None" "snd (read_stdout cb (proc env) m (stdout_lines env)
                 (perform [Popen (str_path t), Register (item_id (item r))] r))
               \<or> cancel_at_exit env"
    | (finish) "raised ?r4 = None" "\<not> (snd (read_stdout cb (proc env) m (stdout_lines env)
                 (perform [Popen (str_path t), Register (item_id (item r))] r))
               \<or> cancel_at_exit env)"
    by blast
  then show ?thesis
  proof cases
    case raised
    then have "encode_item cb cfg env t m r = ?r4"
      using assms by (simp add: encode_item_def Let_def)
    with e4 show ?thesis by simp
  next
    case cancel
    let ?f = "(item ?R)\<lparr>status := STATUS_CANCELED\<rparr>"
    have "encode_item cb cfg env t m r
            = log_item (emit_item cb (perform (cleanup_partial env t)
                 (set_item (\<lambda>i. i\<lparr>status := STATUS_CANCELED\<rparr>) ?r4)))"
      using assms cancel by (simp add: encode_item_def Let_def)
    then have "emitted_items (effects (encode_item cb cfg env t m r))
                 = emitted_items (effects ?R) @ (if cb then [?f] else [])"
      using e4 i4
      by (simp add: log_item_def emit_item_def perform_def set_item_def cleanup_partial_def
            emitted_items_append)
    then show ?thesis by (cases cb) auto
  next
    case finish
    have "encode_item cb cfg env t m r = finish_item cb cfg env t ?r4"
      using assms finish by (simp add: encode_item_def Let_def)
    with finish_item_emitted [of cb cfg env t ?r4] e4 i4
    have "emitted_items (effects (encode_item cb cfg env t m r))
            = emitted_items (effects ?R) @ (if cb then [item (finish_item cb cfg env t ?r4)] else [])"
      and "progress (item (finish_item cb cfg env t ?r4)) = progress (item ?R)
           \<or> progress (item (finish_item cb cfg env t ?r4)) = Some 100"
      by simp_all
    then show ?thesis by (cases cb) auto
  qed
qed

lemma encode_item_progress:
  assumes "sorted (out_times (events (stdout_lines env)))"
    and "end_marker_last (events (stdout_lines env))"
    and "progress (item r) = Some 0" and "status (item r) = STATUS_RUNNING"
    and "\<forall>i \<in> set (emitted_items (effects r)). progress i = Some 0 \<and> status i = STATUS_RUNNING"
  shows "nondecreasing (emitted_progress (effects (encode_item cb cfg env t m r)))
       \<and> (\<forall>i \<in> set (butlast (emitted_items (effects (encode_item cb cfg env t m r)))).
             status i = STATUS_RUNNING)"
proof -
  have nd0: "nondecreasing (emitted_progress (effects r))"
    using assms(5) by (intro nondecreasing_const) (auto simp: emitted_progress_def)
  show ?thesis
  proof (cases "popen_raises env")
    case (Some e)
    then have "effects (encode_item cb cfg env t m r) = effects r"
      by (simp add: encode_item_def)
    with nd0 assms(5) show ?thesis by (auto dest: in_set_butlastD)
  next
    case None
    let ?r1 = "perform [Popen (str_path t), Register (item_id (item r))] r"
    let ?R = "fst (read_stdout cb (proc env) m (stdout_lines env) ?r1)"
    have e1: "emitted_items (effects ?r1) = emitted_items (effects r)"
      by (simp add: perform_def emitted_items_append)
    have "\<exists>c'. progress (item ?R) = Some c' \<and> 0 \<le> c' \<and> c' \<le> 100
           \<and> nondecreasing (emitted_progress (effects ?R))
           \<and> (\<forall>q \<in> set (emitted_progress (effects ?R)). \<exists>v. q = Some v \<and> v \<le> c')"
    proof (rule read_stdout_monotone [OF assms(1,2)])
      show "progress (item ?r1) = Some 0" using assms(3) by (simp add: perform_def)
      show "(0::int) \<le> 100" by simp
      show "\<forall>x \<in> set (out_times (events (stdout_lines env))).
              \<forall>v. progress_from_out_time x (duration m) = Inr (Some v) \<longrightarrow> 0 \<le> v"
        using progress_from_out_time_range by blast
      show "nondecreasing (emitted_progress (effects ?r1))"
        using nd0 by (simp add: emitted_progress_def e1)
      show "\<forall>q \<in> set (emitted_progress (effects ?r1)). \<exists>v. q = Some v \<and> v \<le> 0"
        using assms(5) by (auto simp: emitted_progress_def e1)
    qed
    then obtain c' where c': "progress (item ?R) = Some c'" "c' \<le> 100"
      "nondecreasing (emitted_progress (effects ?R))"
      "\<forall>q \<in> set (emitted_progress (effects ?R)). \<exists>v. q = Some v \<and> v \<le> c'"
      by blast
    have run: "\<forall>i \<in> set (emitted_items (effects ?R)). status i = STATUS_RUNNING"
    proof (rule read_stdout_emitted_status)
      show "status (item ?r1) = STATUS_RUNNING" using assms(4) by (simp add: perform_def)
      show "\<forall>i \<in> set (emitted_items (effects ?r1)). status i = STATUS_RUNNING"
        using assms(5) by (simp add: e1)
    qed
    from encode_item_emitted [OF None, of cb cfg t m r] obtain ys where
      ys: "emitted_items (effects (encode_item cb cfg env t m r)) = emitted_items (effects ?R) @ ys"
        "ys = [] \<or> (\<exists>f. ys = [f] \<and> (progress f = progress (item ?R) \<or> progress f = Some 100))"
      by blast
    have shape: "ys = [] \<or> (\<exists>f v. ys = [f] \<and> progress f = Some v \<and> c' \<le> v)"
      using ys(2) c'(1,2) by auto
    have bound: "\<forall>i \<in> set (emitted_items (effects ?R)). \<exists>v. progress i = Some v \<and> v \<le> c'"
      using c'(4) by (simp add: emitted_progress_def)
    from emitted_extend [OF _ bound run shape] c'(3)
    show ?thesis by (simp add: emitted_progress_def ys(1))
  qed
qed
lemma cancel_keeps_progress: "map progress (items (snd (cancel h))) = map progress (items h)"
  by (simp add: cancel_def Let_def mark_queued_canceled_def mark_canceled_def
        split: option.splits)


lemma sample_events:
  "events (stdout_lines sample_env) = [OutTime 500000, OutTime 1000000, ProgressEnd]"
  by (simp add: events_def sample_env_def parse_line_out_time_500000
        parse_line_out_time_1000000 parse_line_progress_end)

text \<open>
  Claim C6, as the code has it. The percentage does not go down when the elapsed time
  goes up: of two elapsed times for which \<open>progress_from_out_time\<close> returns a
  percentage, the later one gets the larger or the same, also with the rounding of
  binary64; and within the range of claim C1 it returns for both. For a job whose probe
  gives a duration other than none and zero and whose stream carries non-decreasing
  elapsed times, \<^emph>\<open>with no elapsed time after an end-of-stream marker\<close>, the
  percentages that one call of \<open>process_item\<close> reports never go down. All reports but
  the last show the job as \<open>STATUS_RUNNING\<close>: once a report shows another status, the
  call reports nothing more. \<open>cancel\<close> changes no item's progress.
\<close>

theorem progress_never_decreases:
  assumes "\<forall>m. probe_result env = Inr m \<longrightarrow> duration m \<noteq> None \<and> duration m \<noteq> Some (Finite 0)"
    and "sorted (out_times (events (stdout_lines env)))"
    and "end_marker_last (events (stdout_lines env))"
  shows "(\<forall>dur e1 e2 p1 p2. e1 \<le> e2 \<and> progress_from_out_time e1 dur = Inr (Some p1)
             \<and> progress_from_out_time e2 dur = Inr (Some p2) \<longrightarrow> p1 \<le> p2)
       \<and> (\<forall>d e1 e2. 0 \<le> e1 \<and> e1 \<le> e2 \<and> e2 \<le> 2 ^ 63
             \<and> 1 \<le> d * 1000000 \<and> d * 1000000 \<le> 2 ^ 1000 \<longrightarrow>
            (\<exists>p1 p2. progress_from_out_time e1 (Some (Finite d)) = Inr (Some p1)
                    \<and> progress_from_out_time e2 (Some (Finite d)) = Inr (Some p2) \<and> p1 \<le> p2))
       \<and> nondecreasing (emitted_progress (effects (process_item cb cfg env it)))
       \<and> (\<forall>i \<in> set (butlast (emitted_items (effects (process_item cb cfg env it)))).
             status i = STATUS_RUNNING)
       \<and> map progress (items (snd (cancel h))) = map progress (items h)"
proof -
  have mono: "\<forall>dur e1 e2 p1 p2. e1 \<le> e2 \<and> progress_from_out_time e1 dur = Inr (Some p1)
             \<and> progress_from_out_time e2 dur = Inr (Some p2) \<longrightarrow> p1 \<le> p2"
    using progress_from_out_time_mono by blast
  have total: "\<forall>d e1 e2. 0 \<le> e1 \<and> e1 \<le> e2 \<and> e2 \<le> 2 ^ 63
             \<and> 1 \<le> d * 1000000 \<and> d * 1000000 \<le> 2 ^ 1000 \<longrightarrow>
            (\<exists>p1 p2. progress_from_out_time e1 (Some (Finite d)) = Inr (Some p1)
                    \<and> progress_from_out_time e2 (Some (Finite d)) = Inr (Some p2) \<and> p1 \<le> p2)"
  proof (intro allI impI)
    fix d :: rat and e1 e2 :: int
    assume a: "0 \<le> e1 \<and> e1 \<le> e2 \<and> e2 \<le> 2 ^ 63 \<and> 1 \<le> d * 1000000 \<and> d * 1000000 \<le> 2 ^ 1000"
    then have "0 \<le> e1" "e1 \<le> 2 ^ 63" "0 \<le> e2" "e2 \<le> 2 ^ 63" "e1 \<le> e2"
      "1 \<le> d * 1000000" "d * 1000000 \<le> 2 ^ 1000" by simp_all
    from progress_close [OF this(1,2,6,7)] progress_close [OF this(3,4,6,7)]
    obtain p1 p2 where p: "progress_from_out_time e1 (Some (Finite d)) = Inr (Some p1)"
      "progress_from_out_time e2 (Some (Finite d)) = Inr (Some p2)" by blast
    from progress_from_out_time_mono [OF \<open>e1 \<le> e2\<close> p] p
    show "\<exists>p1 p2. progress_from_out_time e1 (Some (Finite d)) = Inr (Some p1)
                    \<and> progress_from_out_time e2 (Some (Finite d)) = Inr (Some p2) \<and> p1 \<le> p2"
      by blast
  qed
  let ?run0 = "\<lparr>item = it\<lparr>status := STATUS_RUNNING, progress := Some 0\<rparr>,
                effects = [], raised = None\<rparr>"
  have main: "nondecreasing (emitted_progress (effects (process_item cb cfg env it)))
       \<and> (\<forall>i \<in> set (butlast (emitted_items (effects (process_item cb cfg env it)))).
             status i = STATUS_RUNNING)"
  proof -
    consider (entry) "cancel_at_entry env"
      | (mkdir) e where "\<not> cancel_at_entry env" "mkdir_raises env = Some e"
      | (temp) e where "\<not> cancel_at_entry env" "mkdir_raises env = None"
          "temp_output_path (fs_entries env) (parse_path (output_path it)) = Inl e"
      | (dry) t where "\<not> cancel_at_entry env" "mkdir_raises env = None"
          "temp_output_path (fs_entries env) (parse_path (output_path it)) = Inr t" "dry_run cfg"
      | (probe) t msg where "\<not> cancel_at_entry env" "mkdir_raises env = None"
          "temp_output_path (fs_entries env) (parse_path (output_path it)) = Inr t"
          "\<not> dry_run cfg" "probe_result env = Inl msg"
      | (encode) t m where "\<not> cancel_at_entry env" "mkdir_raises env = None"
          "temp_output_path (fs_entries env) (parse_path (output_path it)) = Inr t"
          "\<not> dry_run cfg" "probe_result env = Inr m"
      by (cases "mkdir_raises env";
          cases "temp_output_path (fs_entries env) (parse_path (output_path it))";
          cases "probe_result env") auto
    then show ?thesis
    proof cases
      case entry
      then show ?thesis
        by (cases cb)
           (simp_all add: process_item_def emit_item_def nondecreasing_def emitted_progress_def)
    next
      case mkdir
      then show ?thesis
        by (cases cb)
           (simp_all add: process_item_def Let_def emit_item_def perform_def nondecreasing_def
              emitted_progress_def)
    next
      case temp
      then show ?thesis
        by (cases cb)
           (simp_all add: process_item_def Let_def emit_item_def perform_def nondecreasing_def
              emitted_progress_def)
    next
      case dry
      then show ?thesis
        by (cases cb)
           (simp_all add: process_item_def Let_def emit_item_def log_item_def perform_def
              set_item_def nondecreasing_def emitted_progress_def)
    next
      case probe
      then show ?thesis
        by (cases cb)
           (simp_all add: process_item_def Let_def emit_item_def log_item_def perform_def
              set_item_def nondecreasing_def emitted_progress_def)
    next
      case encode
      from assms(1) encode(5) have d: "duration m \<noteq> None" "duration m \<noteq> Some (Finite 0)"
        by blast+
      let ?r = "set_item (\<lambda>i. i\<lparr>media := Some m,
                  progress := (if duration m = None \<or> duration m = Some (Finite 0)
                               then None else progress i)\<rparr>)
                (perform [ProbeMedia (input_path it)]
                  (set_item (\<lambda>i. i\<lparr>input_bytes := stat_input env\<rparr>)
                    (perform [Mkdir (output_path it)] (emit_item cb ?run0))))"
      have run: "process_item cb cfg env it = encode_item cb cfg env t m ?r"
        using encode by (simp add: process_item_def Let_def)
      have p: "progress (item ?r) = Some 0" and s: "status (item ?r) = STATUS_RUNNING"
        using d by (simp_all add: set_item_def perform_def emit_item_def)
      have e: "\<forall>i \<in> set (emitted_items (effects ?r)). progress i = Some 0 \<and> status i = STATUS_RUNNING"
        by (simp add: set_item_def perform_def emit_item_def)
      from encode_item_progress [OF assms(2,3) p s e] show ?thesis
        unfolding run .
    qed
  qed
  from mono total main cancel_keeps_progress show ?thesis by blast
qed

theorem progress_never_decreases_witness:
  "sorted (out_times (events (stdout_lines sample_env)))
   \<and> end_marker_last (events (stdout_lines sample_env))
   \<and> nondecreasing (emitted_progress (effects
        (process_item True sample_config sample_env (sample_item 1 STATUS_QUEUED))))
   \<and> (\<exists>p1 p2. progress_from_out_time 500000 (Some (Finite 10)) = Inr (Some p1)
              \<and> progress_from_out_time 1000000 (Some (Finite 10)) = Inr (Some p2) \<and> p1 \<le> p2)"
proof -
  have k: "\<forall>m. probe_result sample_env = Inr m
             \<longrightarrow> duration m \<noteq> None \<and> duration m \<noteq> Some (Finite 0)"
    by (simp add: sample_env_def)
  have s: "sorted (out_times (events (stdout_lines sample_env)))"
    by (simp add: sample_events)
  have l: "end_marker_last (events (stdout_lines sample_env))"
    by (simp add: sample_events end_marker_last_def)
  note t = progress_never_decreases [OF k s l, of True sample_config "sample_item 1 STATUS_QUEUED"]
  from t have n: "nondecreasing (emitted_progress (effects
        (process_item True sample_config sample_env (sample_item 1 STATUS_QUEUED))))"
    by blast
  from t have "(0::int) \<le> 500000 \<and> (500000::int) \<le> 1000000 \<and> (1000000::int) \<le> 2 ^ 63
             \<and> (1::rat) \<le> 10 * 1000000 \<and> (10::rat) * 1000000 \<le> 2 ^ 1000 \<longrightarrow>
            (\<exists>p1 p2. progress_from_out_time 500000 (Some (Finite 10)) = Inr (Some p1)
                    \<and> progress_from_out_time 1000000 (Some (Finite 10)) = Inr (Some p2) \<and> p1 \<le> p2)"
    by blast
  then have "\<exists>p1 p2. progress_from_out_time 500000 (Some (Finite 10)) = Inr (Some p1)
              \<and> progress_from_out_time 1000000 (Some (Finite 10)) = Inr (Some p2) \<and> p1 \<le> p2"
    by simp
  with s l n show ?thesis by blast
qed

text \<open>
  The claim as it was stated fails: non-decreasing elapsed times do not keep the reports
  from going down. An elapsed time that follows an end-of-stream marker replaces the 100
  of the marker by its own percentage, while the job is \<open>STATUS_RUNNING\<close>: for the lines
  \<open>out_time_ms=500000\<close>, \<open>progress=end\<close>, \<open>out_time_ms=600000\<close> of a 10 second input
  the reports are 0, 5, 100, 6, and then 100 with the final status.
\<close>

theorem progress_drops_after_end_marker:
  "sorted (out_times (events [(False, ''out_time_ms=500000''), (False, ''progress=end''),
                              (False, ''out_time_ms=600000'')]))
   \<and> emitted_progress (effects (process_item True sample_config
        (sample_env\<lparr>stdout_lines := [(False, ''out_time_ms=500000''), (False, ''progress=end''),
                                     (False, ''out_time_ms=600000'')]\<rparr>)
        (sample_item 1 STATUS_QUEUED)))
     = [Some 0, Some 5, Some 100, Some 6, Some 100]
   \<and> map status (emitted_items (effects (process_item True sample_config
        (sample_env\<lparr>stdout_lines := [(False, ''out_time_ms=500000''), (False, ''progress=end''),
                                     (False, ''out_time_ms=600000'')]\<rparr>)
        (sample_item 1 STATUS_QUEUED))))
     = [STATUS_RUNNING, STATUS_RUNNING, STATUS_RUNNING, STATUS_RUNNING, STATUS_COMPLETED]
   \<and> \<not> nondecreasing (emitted_progress (effects (process_item True sample_config
        (sample_env\<lparr>stdout_lines := [(False, ''out_time_ms=500000''), (False, ''progress=end''),
                                     (False, ''out_time_ms=600000'')]\<rparr>)
        (sample_item 1 STATUS_QUEUED))))"
proof -
  have e: "emitted_items (effects (process_item True sample_config
        (sample_env\<lparr>stdout_lines := [(False, ''out_time_ms=500000''), (False, ''progress=end''),
                                     (False, ''out_time_ms=600000'')]\<rparr>)
        (sample_item 1 STATUS_QUEUED)))
     = [(sample_item 1 STATUS_RUNNING),
        (sample_item 1 STATUS_RUNNING)
          \<lparr>progress := Some 5, input_bytes := Some 1000,
           media := Some (MediaInfo_default\<lparr>duration := Some (Finite 10)\<rparr>)\<rparr>,
        (sample_item 1 STATUS_RUNNING)
          \<lparr>progress := Some 100, input_bytes := Some 1000,
           media := Some (MediaInfo_default\<lparr>duration := Some (Finite 10)\<rparr>)\<rparr>,
        (sample_item 1 STATUS_RUNNING)
          \<lparr>progress := Some 6, input_bytes := Some 1000,
           media := Some (MediaInfo_default\<lparr>duration := Some (Finite 10)\<rparr>)\<rparr>,
        (sample_item 1 STATUS_COMPLETED)
          \<lparr>progress := Some 100, input_bytes := Some 1000, output_bytes := Some 500,
           media := Some (MediaInfo_default\<lparr>duration := Some (Finite 10)\<rparr>)\<rparr>]"
    by (simp add: process_item_def encode_item_def finish_item_def Let_def handle_line_def
          parse_line_out_time_500000 parse_line_out_time_600000 parse_line_progress_end
          progress_500000 progress_600000 sample_defs set_item_def perform_def emit_item_def
          log_item_def cleanup_partial_def)
  have s: "sorted (out_times (events [(False, ''out_time_ms=500000''), (False, ''progress=end''),
                              (False, ''out_time_ms=600000'')]))"
    by (simp add: events_def parse_line_out_time_500000 parse_line_out_time_600000
          parse_line_progress_end)
  show ?thesis
    unfolding emitted_progress_def e using s
    by (simp add: sample_item_def new_item_def nondecreasing_def)
qed

subsection \<open>Numbered destinations\<close>

lemma suffix_candidate_inj: "suffix_candidate p n = suffix_candidate p k \<Longrightarrow> n = k"
  by (simp add: suffix_candidate_def with_name_def str_nat_inj)

lemma suffix_candidate_name:
  "path_name (suffix_candidate p n) = path_stem p @ ''_'' @ str_nat n @ path_suffix p"
  by (simp add: suffix_candidate_def with_name_def path_name_def)

lemma free_candidate:
  assumes "finite {q. fs_exists q}"
  shows "\<exists>n. k \<le> n \<and> \<not> fs_exists (suffix_candidate p n)"
proof (rule ccontr)
  assume "\<not> (\<exists>n. k \<le> n \<and> \<not> fs_exists (suffix_candidate p n))"
  then have sub: "suffix_candidate p ` {k..} \<subseteq> {q. fs_exists q}" by auto
  have "inj_on (suffix_candidate p) {k..}"
    by (rule inj_onI) (rule suffix_candidate_inj)
  with finite_imageD [OF finite_subset [OF sub assms]] have "finite {k..}" by blast
  then show False by (simp add: infinite_Ici)
qed

lemma suffix_path_loop_steps:
  assumes "\<not> fs_exists (suffix_candidate p n)" and "k \<le> n"
    and "\<forall>j. k \<le> j \<and> j < n \<longrightarrow> fs_exists (suffix_candidate p j)"
  shows "suffix_path_loop fs_exists p k = Some (suffix_candidate p n)"
  using assms(2,3)
proof (induction "n - k" arbitrary: k)
  case 0
  then have "k = n" by simp
  with assms(1) show ?case by (subst suffix_path_loop.simps) simp
next
  case (Suc d)
  then have kn: "k < n" by simp
  with Suc.prems have ex: "fs_exists (suffix_candidate p k)" by simp
  have "suffix_path_loop fs_exists p (k + 1) = Some (suffix_candidate p n)"
  proof (rule Suc.hyps(1))
    show "d = n - (k + 1)" using Suc.hyps(2) by simp
    show "k + 1 \<le> n" using kn by simp
    show "\<forall>j. k + 1 \<le> j \<and> j < n \<longrightarrow> fs_exists (suffix_candidate p j)"
      using Suc.prems(2) by simp
  qed
  with ex show ?case by (subst suffix_path_loop.simps) simp
qed

lemma suffix_path_least:
  assumes "finite {q. fs_exists q}"
  shows "suffix_path fs_exists p
           = Some (suffix_candidate p (LEAST n. 0 < n \<and> \<not> fs_exists (suffix_candidate p n)))
       \<and> 0 < (LEAST n. 0 < n \<and> \<not> fs_exists (suffix_candidate p n))
       \<and> \<not> fs_exists (suffix_candidate p (LEAST n. 0 < n \<and> \<not> fs_exists (suffix_candidate p n)))
       \<and> (\<forall>j. 0 < j \<and> j < (LEAST n. 0 < n \<and> \<not> fs_exists (suffix_candidate p n))
             \<longrightarrow> fs_exists (suffix_candidate p j))"
proof -
  let ?P = "\<lambda>n. 0 < n \<and> \<not> fs_exists (suffix_candidate p n)"
  from free_candidate [OF assms, of 1 p] obtain n
    where "1 \<le> n" and "\<not> fs_exists (suffix_candidate p n)" by blast
  then have "?P n" by simp
  then have l: "?P (Least ?P)" by (rule LeastI)
  have m: "\<forall>j. 0 < j \<and> j < Least ?P \<longrightarrow> fs_exists (suffix_candidate p j)"
  proof (intro allI impI)
    fix j assume j: "0 < j \<and> j < Least ?P"
    then have "\<not> ?P j" using not_less_Least [of j ?P] by blast
    with j show "fs_exists (suffix_candidate p j)" by blast
  qed
  have s: "suffix_path_loop fs_exists p 1 = Some (suffix_candidate p (Least ?P))"
  proof (rule suffix_path_loop_steps)
    show "\<not> fs_exists (suffix_candidate p (Least ?P))" using l by blast
    show "1 \<le> Least ?P" using l by (simp only: Suc_le_eq One_nat_def)
    show "\<forall>j. 1 \<le> j \<and> j < Least ?P \<longrightarrow> fs_exists (suffix_candidate p j)"
      using m by (simp only: Suc_le_eq One_nat_def)
  qed
  from l have l1: "0 < Least ?P" and l2: "\<not> fs_exists (suffix_candidate p (Least ?P))"
    by blast+
  from s l1 l2 m show ?thesis
    unfolding suffix_path_def by (intro conjI)
qed

lemma spec_suffix_choice_free:
  assumes "finite {q. fs_exists q}"
  shows "\<not> fs_exists (spec_suffix_choice fs_exists out_path)"
proof (cases "fs_exists out_path")
  case True
  from suffix_path_least [OF assms, of out_path]
  have free: "\<not> fs_exists (suffix_candidate out_path
            (LEAST n. 0 < n \<and> \<not> fs_exists (suffix_candidate out_path n)))"
    by blast
  have eq: "spec_suffix_choice fs_exists out_path
              = suffix_candidate out_path
                  (LEAST n. 0 < n \<and> \<not> fs_exists (suffix_candidate out_path n))"
    using True by (simp only: spec_suffix_choice_def if_True)
  show ?thesis unfolding eq by (rule free)
next
  case False
  have eq: "spec_suffix_choice fs_exists out_path = out_path"
    using False by (simp only: spec_suffix_choice_def if_False)
  show ?thesis unfolding eq by (rule False)
qed

lemma plan_output_suffix:
  assumes "finite {q. fs_exists q}" and "collision_policy cfg = ''suffix''"
    and "output_dir cfg = Some out_root"
  shows "plan_output cfg fs_exists rel
           = Some (STATUS_QUEUED, [], Some (spec_suffix_choice fs_exists (out_root @ rel)))"
proof -
  from suffix_path_least [OF assms(1), of "out_root @ rel"]
  have sp: "suffix_path fs_exists (out_root @ rel)
           = Some (suffix_candidate (out_root @ rel)
               (LEAST n. 0 < n \<and> \<not> fs_exists (suffix_candidate (out_root @ rel) n)))"
    by blast
  show ?thesis
    using assms(2,3) by (simp add: plan_output_def spec_suffix_choice_def Let_def sp)
qed

lemma scan_files_suffix:
  assumes "finite {q. fs_exists q}" and "collision_policy cfg = ''suffix''"
    and "output_dir cfg = Some out_root"
  shows "\<exists>its. scan_files cfg fs_exists stat_size n files = Some its
           \<and> map output_path its
               = map (\<lambda>rel. str_path (spec_suffix_choice fs_exists (out_root @ rel)))
                   (filter (accepted cfg) files)
           \<and> map status its = map (\<lambda>rel. STATUS_QUEUED) (filter (accepted cfg) files)"
proof (induction files arbitrary: n)
  case Nil
  show ?case by simp
next
  case (Cons rel files)
  from Cons.IH [of n] Cons.IH [of "n + 1"] show ?case
    by (auto simp: accepted_def plan_output_suffix [OF assms] new_item_def)
qed
lemma scan_inputs_walked:
  "scan_inputs cfg fs_exists stat_size walk
     = scan_files cfg fs_exists stat_size 1 (walked_files walk)"
  by (simp add: scan_inputs_def walked_files_def)

text \<open>
  Claim C7. On a file system with finitely many paths, under the policy \<open>suffix\<close> with an
  output directory set: \<open>suffix_path\<close> returns, and what it returns is the candidate
  \<open>stem_N\<close> plus extension for the smallest positive \<open>N\<close> whose candidate does not exist.
  The scan returns, and the destination of each item it makes is the path that
  \<open>spec_suffix_choice\<close> names, which never exists. The destinations depend on the
  configuration, the existing paths and the walk only, so a scan repeated on an unchanged
  file system gives the same destinations.
\<close>

theorem suffix_policy_destinations:
  assumes "finite {q. fs_exists q}" and "collision_policy cfg = ''suffix''"
    and "output_dir cfg = Some out_root"
  shows "(\<exists>n. 0 < n \<and> suffix_path fs_exists p = Some (suffix_candidate p n)
              \<and> \<not> fs_exists (suffix_candidate p n)
              \<and> (\<forall>k. 0 < k \<and> k < n \<longrightarrow> fs_exists (suffix_candidate p k))
              \<and> path_name (suffix_candidate p n)
                  = path_stem p @ ''_'' @ str_nat n @ path_suffix p)
       \<and> (\<forall>rel. \<not> fs_exists (spec_suffix_choice fs_exists (out_root @ rel)))
       \<and> (\<exists>its. scan_inputs cfg fs_exists stat_size walk = Some its
              \<and> map output_path its
                  = map (\<lambda>rel. str_path (spec_suffix_choice fs_exists (out_root @ rel)))
                      (filter (accepted cfg) (walked_files walk))
              \<and> (\<forall>stat_size' its'. scan_inputs cfg fs_exists stat_size' walk = Some its'
                    \<longrightarrow> map output_path its' = map output_path its))"
proof -
  let ?n = "LEAST n. 0 < n \<and> \<not> fs_exists (suffix_candidate p n)"
  from suffix_path_least [OF assms(1), of p] suffix_candidate_name [of p ?n]
  have a: "\<exists>n. 0 < n \<and> suffix_path fs_exists p = Some (suffix_candidate p n)
              \<and> \<not> fs_exists (suffix_candidate p n)
              \<and> (\<forall>k. 0 < k \<and> k < n \<longrightarrow> fs_exists (suffix_candidate p k))
              \<and> path_name (suffix_candidate p n)
                  = path_stem p @ ''_'' @ str_nat n @ path_suffix p"
    by (intro exI [of _ ?n]) blast
  have b: "\<forall>rel. \<not> fs_exists (spec_suffix_choice fs_exists (out_root @ rel))"
    using spec_suffix_choice_free [OF assms(1)] by blast
  from scan_files_suffix [OF assms, of stat_size 1 "walked_files walk"] obtain its where
    its: "scan_inputs cfg fs_exists stat_size walk = Some its"
      "map output_path its
         = map (\<lambda>rel. str_path (spec_suffix_choice fs_exists (out_root @ rel)))
             (filter (accepted cfg) (walked_files walk))"
    unfolding scan_inputs_walked by blast
  have c: "\<forall>stat_size' its'. scan_inputs cfg fs_exists stat_size' walk = Some its'
             \<longrightarrow> map output_path its' = map output_path its"
  proof (intro allI impI)
    fix stat_size' its'
    assume s: "scan_inputs cfg fs_exists stat_size' walk = Some its'"
    from scan_files_suffix [OF assms, of stat_size' 1 "walked_files walk"] s
    have "map output_path its'
         = map (\<lambda>rel. str_path (spec_suffix_choice fs_exists (out_root @ rel)))
             (filter (accepted cfg) (walked_files walk))"
      unfolding scan_inputs_walked by auto
    with its(2) show "map output_path its' = map output_path its" by simp
  qed
  from a b its c show ?thesis by blast
qed

lemma sample_suffix_path:
  "suffix_path sample_fs [''out'', ''clip.mp4''] = Some [''out'', ''clip_2.mp4'']"
  by (simp add: suffix_path_def suffix_path_loop.simps suffix_candidate_def with_name_def
        path_stem_def path_suffix_def path_name_def rfind_dot_def digit_char_def
        str_nat_small sample_fs_def)

theorem suffix_policy_destinations_witness:
  "finite {q. sample_fs q}
   \<and> (\<exists>n. 0 < n \<and> suffix_path sample_fs [''out'', ''clip.mp4'']
                      = Some (suffix_candidate [''out'', ''clip.mp4''] n)
            \<and> \<not> sample_fs (suffix_candidate [''out'', ''clip.mp4''] n))
   \<and> suffix_path sample_fs [''out'', ''clip.mp4''] = Some [''out'', ''clip_2.mp4'']
   \<and> (\<exists>its. scan_inputs sample_config sample_fs (\<lambda>q. None) [([], [''clip.mp4'', ''notes.txt''])]
              = Some its)"
proof -
  have f: "finite {q. sample_fs q}" by (simp add: sample_fs_def)
  have c: "collision_policy sample_config = ''suffix''"
    and o: "output_dir sample_config = Some [''out'']"
    by (simp_all add: sample_config_def)
  note t = suffix_policy_destinations [OF f c o, of "[''out'', ''clip.mp4'']" "\<lambda>q. None"
      "[([], [''clip.mp4'', ''notes.txt''])]"]
  from t have a: "\<exists>n. 0 < n \<and> suffix_path sample_fs [''out'', ''clip.mp4'']
                      = Some (suffix_candidate [''out'', ''clip.mp4''] n)
            \<and> \<not> sample_fs (suffix_candidate [''out'', ''clip.mp4''] n)"
    by blast
  from t have b: "\<exists>its. scan_inputs sample_config sample_fs (\<lambda>q. None)
                      [([], [''clip.mp4'', ''notes.txt''])] = Some its"
    by blast
  from f a b sample_suffix_path show ?thesis by blast
qed

end
